theory Spec2Isabelle
  imports Main "HOL-Library.AList"
begin

section \<open>The struct-tag reader (structtag.go)\<close>

text \<open>
  Go strings are byte sequences; they are modelled as \<open>string\<close> (a list of 8-bit
  characters), indexed from 0 as the source does. The three inner scanning loops of
  \<open>Extract\<close> are index loops and are kept as such.
\<close>

abbreviation (input) dquote :: char where "dquote \<equiv> CHR 0x22"
abbreviation (input) backslash :: char where "backslash \<equiv> CHR 0x5C"
abbreviation (input) space :: char where "space \<equiv> CHR 0x20"
abbreviation (input) colon :: char where "colon \<equiv> CHR 0x3A"

datatype tag_error = errInvalidTag | ErrSyntax

text \<open>\<open>for i < len(tag) && tag[i] == ' ' { i++ }\<close>\<close>

function skipSpaces :: "string \<Rightarrow> nat \<Rightarrow> nat" where
  "skipSpaces tag i = (if i < length tag \<and> tag ! i = space then skipSpaces tag (i + 1) else i)"
  by pat_completeness auto
termination
  by (relation "measure (\<lambda>(tag, i). length tag - i)") auto

text \<open>\<open>for i < len(tag) && tag[i] != ' ' && tag[i] != ':' && tag[i] != '"' { i++ }\<close>\<close>

function scanName :: "string \<Rightarrow> nat \<Rightarrow> nat" where
  "scanName tag i =
     (if i < length tag \<and> tag ! i \<noteq> space \<and> tag ! i \<noteq> colon \<and> tag ! i \<noteq> dquote
      then scanName tag (i + 1) else i)"
  by pat_completeness auto
termination
  by (relation "measure (\<lambda>(tag, i). length tag - i)") auto

text \<open>
  \<open>for i < len(tag) && tag[i] != '"' { if tag[i] == '\\' { i++ }; i++ }\<close>:
  a backslash makes the scan step over the byte that follows it.
\<close>

function scanValue :: "string \<Rightarrow> nat \<Rightarrow> nat" where
  "scanValue tag i =
     (if i < length tag \<and> tag ! i \<noteq> dquote
      then scanValue tag (if tag ! i = backslash then i + 2 else i + 1) else i)"
  by pat_completeness auto
termination
  by (relation "measure (\<lambda>(tag, i). length tag - i)") auto

declare skipSpaces.simps [simp del] scanName.simps [simp del] scanValue.simps [simp del]

text \<open>
  \<open>Extract\<close> returns the triple \<open>(found, value, err)\<close>. The call
  \<open>strconv.Unquote\<close> belongs to Go's standard library, not to this repository; it is
  the parameter \<open>unq\<close>, with \<open>None\<close> for the library's \<open>ErrSyntax\<close>.
  Slices \<open>tag[i:]\<close> and \<open>tag[:i]\<close> are \<open>drop i tag\<close> and \<open>take i tag\<close>;
  every slice of the source is taken within bounds.
\<close>

function Extract :: "(string \<Rightarrow> string option) \<Rightarrow> string \<Rightarrow> string \<Rightarrow> bool \<times> string \<times> tag_error option" where
  "Extract unq name tag =
     (if tag = [] then (False, [], None)
      else let tag1 = drop (skipSpaces tag 0) tag in
        if tag1 = [] then (False, [], None)
        else let i = scanName tag1 0 in
          if i + 1 \<ge> length tag1 \<or> tag1 ! i \<noteq> colon \<or> tag1 ! (i + 1) \<noteq> dquote
          then (False, [], Some errInvalidTag)
          else let foundName = take i tag1; tag2 = drop (i + 1) tag1; j = scanValue tag2 1 in
            if j \<ge> length tag2 then (False, [], Some errInvalidTag)
            else let qValue = take (j + 1) tag2; tag3 = drop (j + 1) tag2 in
              if foundName = name
              then (case unq qValue of
                      None \<Rightarrow> (False, [], Some ErrSyntax)
                    | Some v \<Rightarrow> (True, v, None))
              else Extract unq name tag3)"
  by pat_completeness auto
termination
  by (relation "measure (\<lambda>(unq, name, tag). length tag)") auto

declare Extract.simps [simp del]

text \<open>The parsed directive (\<open>type tag struct\<close>).\<close>

datatype tag = Tag (tagName: string) (Inline: bool) (Private: bool)

definition injectOnly :: tag where "injectOnly = Tag [] False False"
definition injectPrivate :: tag where "injectPrivate = Tag [] False True"
definition injectInline :: tag where "injectInline = Tag [] True False"

text \<open>\<open>parseTag\<close> returns \<open>(*tag, error)\<close>; the nil tag is \<open>None\<close>.\<close>

definition parseTag :: "(string \<Rightarrow> string option) \<Rightarrow> string \<Rightarrow> tag option \<times> tag_error option" where
  "parseTag unq t =
     (case Extract unq ''inject'' t of
        (found, v, Some err) \<Rightarrow> (None, Some err)
      | (found, v, None) \<Rightarrow>
          if \<not> found then (None, None)
          else if v = [] then (Some injectOnly, None)
          else if v = ''inline'' then (Some injectInline, None)
          else if v = ''private'' then (Some injectPrivate, None)
          else (Some (Tag v False False), None))"


section \<open>Types and values as reflection sees them\<close>

text \<open>
  The program works on arbitrary Go values through package \<open>reflect\<close>. The part of
  Go's type system it looks at is kept: named struct types (their fields are looked up in
  a type environment, so recursive types through pointers are expressible), pointer
  types, interface types (given by the methods they require), map types, and every
  other type as an opaque \<open>Basic\<close> one. Unnamed struct types and named non-struct
  types are outside this universe.
\<close>

datatype ty =
    Struct string
  | Ptr ty
  | Interface "string list"
  | MapT ty ty
  | Basic string

datatype kind = KStruct | KPtr | KInterface | KMap | KOther

fun Kind :: "ty \<Rightarrow> kind" where
  "Kind (Struct n) = KStruct"
| "Kind (Ptr t) = KPtr"
| "Kind (Interface ms) = KInterface"
| "Kind (MapT k v) = KMap"
| "Kind (Basic b) = KOther"

text \<open>\<open>t.Kind() == reflect.Ptr && t.Elem().Kind() == reflect.Struct\<close>\<close>

fun isStructPtr :: "ty \<Rightarrow> bool" where
  "isStructPtr (Ptr t) = (Kind t = KStruct)"
| "isStructPtr _ = False"

text \<open>One \<open>reflect.StructField\<close>: name, type, tag, whether the field is exported
  (\<open>CanSet\<close> of a field reached through a pointer), whether it is embedded.\<close>

record StructField =
  fieldName :: string
  fieldType :: ty
  fieldTag :: string
  canSet :: bool
  anonymous :: bool

text \<open>
  The type environment: the declared fields of every struct type, the method set of
  every concrete type, and the standard library's \<open>strconv.Unquote\<close>.
\<close>

record tenv =
  structFields :: "string \<Rightarrow> StructField list"
  methodSet :: "ty \<Rightarrow> string list"
  unquote :: "string \<Rightarrow> string option"

text \<open>
  \<open>V.AssignableTo(T)\<close> on this universe: identical types, or \<open>T\<close> an interface
  that \<open>V\<close> implements.
\<close>

fun methodsOf :: "tenv \<Rightarrow> ty \<Rightarrow> string list" where
  "methodsOf E (Interface ms) = ms"
| "methodsOf E t = methodSet E t"

fun AssignableTo :: "tenv \<Rightarrow> ty \<Rightarrow> ty \<Rightarrow> bool" where
  "AssignableTo E v (Interface ms) = (v = Interface ms \<or> set ms \<subseteq> set (methodsOf E v))"
| "AssignableTo E v t = (v = t)"

text \<open>
  Memory. A variable lives in a cell; an address is a cell and a path of field indices
  into it, so that the address of an inline struct field (\<open>field.Addr()\<close>) is an
  interior pointer. A map value is a reference to a map allocation. \<open>VBasic k\<close> is
  a value of any other type, with \<open>k = 0\<close> exactly for the type's zero value.
  A non-nil \<open>interface{}\<close> is a pair of dynamic type and value.
\<close>

type_synonym addr = "nat \<times> nat list"

datatype val =
    VPtr "addr option"
  | VIface "(ty \<times> val) option"
  | VStruct "val list"
  | VMap "nat option"
  | VBasic nat

type_synonym dyn = "ty \<times> val"

text \<open>
  \<open>isNilOrZero\<close> is \<open>reflect.DeepEqual(v.Interface(), reflect.Zero(t).Interface())\<close>.
  Against a zero value \<open>DeepEqual\<close> holds exactly when the pointer, interface or map is
  nil, the basic value is zero, and every field of a struct is so in turn.
\<close>

fun isNilOrZero :: "val \<Rightarrow> bool" where
  "isNilOrZero (VPtr p) = (p = None)"
| "isNilOrZero (VIface d) = (d = None)"
| "isNilOrZero (VStruct vs) = list_all isNilOrZero vs"
| "isNilOrZero (VMap m) = (m = None)"
| "isNilOrZero (VBasic k) = (k = 0)"

text \<open>\<open>reflect.Zero\<close>; the depth bound \<open>d\<close> covers the nesting of inline structs.\<close>

fun zeroVal :: "tenv \<Rightarrow> nat \<Rightarrow> ty \<Rightarrow> val option" where
  "zeroVal E d (Ptr t) = Some (VPtr None)"
| "zeroVal E d (Interface ms) = Some (VIface None)"
| "zeroVal E d (MapT k v) = Some (VMap None)"
| "zeroVal E d (Basic b) = Some (VBasic 0)"
| "zeroVal E 0 (Struct n) = None"
| "zeroVal E (Suc d) (Struct n) =
     (let vs = map (\<lambda>f. zeroVal E d (fieldType f)) (structFields E n)
      in if list_all (\<lambda>v. v \<noteq> None) vs then Some (VStruct (map the vs)) else None)"

fun valAt :: "val \<Rightarrow> nat list \<Rightarrow> val option" where
  "valAt v [] = Some v"
| "valAt (VStruct vs) (i # p) = (if i < length vs then valAt (vs ! i) p else None)"
| "valAt v (i # p) = None"

fun valUpd :: "val \<Rightarrow> nat list \<Rightarrow> val \<Rightarrow> val" where
  "valUpd v [] w = w"
| "valUpd (VStruct vs) (i # p) w = VStruct (vs[i := valUpd (vs ! i) p w])"
| "valUpd v (i # p) w = v"

section \<open>Objects and the graph\<close>

text \<open>
  \<open>type Object struct\<close>. \<open>Value\<close> is an \<open>interface{}\<close>: \<open>None\<close> is the nil
  interface. \<open>Fields\<close> is a Go map that may be nil (\<open>None\<close>); once made it maps
  field names to objects. Objects are handled through pointers everywhere, so they live
  in a store and are named by their index in it; an index outside the store stands for
  a nil pointer. The field \<open>private\<close> of the source is \<open>private'\<close> here.
\<close>

record Object =
  Value :: "dyn option"
  Name :: string
  Complete :: bool
  Fields :: "(string \<times> nat) list option"
  reflectType :: "ty option"
  reflectValue :: "dyn option"
  private' :: bool
  created :: bool
  embedded :: bool

definition newObject :: "dyn option \<Rightarrow> Object" where
  "newObject v = \<lparr>Value = v, Name = [], Complete = False, Fields = None, reflectType = None,
     reflectValue = None, private' = False, created = False, embedded = False\<rparr>"

text \<open>
  The state: the memory (\<open>cells\<close>, the number of maps made), the store of
  \<open>Object\<close>s, and the three fields of \<open>Graph\<close>. The logger is nil throughout
  (it only reports). \<open>unnamedType\<close> and \<open>named\<close> are Go maps, made on first use; a
  missing key reads as \<open>false\<close>, respectively nil.
\<close>

record state =
  cells :: "val list"
  maps :: nat
  objs :: "Object list"
  unnamed :: "nat list"
  unnamedType :: "(ty \<times> bool) list"
  named :: "(string \<times> nat) list"

datatype error =
    FieldsSpecified nat
  | NotStructPointer ty
  | TwoUnnamed ty
  | TwoNamed string
  | UnexpectedTagFormat string string ty
  | UnexportedField string ty
  | InlineOnNonInlined string ty
  | NamedNotFound string string ty
  | NamedNotAssignable string ty string ty ty
  | PrivateOnInline string ty
  | InlineTagRequired string ty
  | MapNotPrivate string ty
  | UnsupportedField string ty
  | PrivateOnInterface string ty
  | TwoAssignable string ty ty "dyn option" ty "dyn option"
  | NoAssignable string ty

text \<open>What a call ends with: \<open>return nil\<close>, \<open>return err\<close>, or a run-time panic.\<close>

datatype outcome = Nil | Err error | Panic string

definition typeTaken :: "state \<Rightarrow> ty \<Rightarrow> bool" where
  "typeTaken s t = (map_of (unnamedType s) t = Some True)"

text \<open>\<open>o.addDep(field, dep)\<close>\<close>

definition addDep :: "state \<Rightarrow> nat \<Rightarrow> string \<Rightarrow> nat \<Rightarrow> state" where
  "addDep s ob field dep =
     (let ob' = objs s ! ob;
          m = (case Fields ob' of None \<Rightarrow> [] | Some m \<Rightarrow> m)
      in s\<lparr>objs := (objs s)[ob := ob'\<lparr>Fields := Some (AList.update field dep m)\<rparr>]\<rparr>)"

text \<open>
  \<open>Graph.Provide\<close>. The arguments are pointers to objects of the store. Every write
  the source makes before it returns an error stays in the state.
  \<open>reflect.TypeOf(nil)\<close> is the nil type, on which \<open>Kind\<close> panics.
\<close>

fun Provide :: "state \<Rightarrow> nat list \<Rightarrow> outcome \<times> state" where
  "Provide s [] = (Nil, s)"
| "Provide s (ob # obs) =
     (if ob \<ge> length (objs s) then (Panic ''nil object'', s)
      else
        let ob0 = objs s ! ob;
            ob1 = ob0\<lparr>reflectType := map_option fst (Value ob0), reflectValue := Value ob0\<rparr>;
            s1 = s\<lparr>objs := (objs s)[ob := ob1]\<rparr>
        in
          if Fields ob1 \<noteq> None then (Err (FieldsSpecified ob), s1)
          else if Name ob1 = [] then
            (case reflectType ob1 of
               None \<Rightarrow> (Panic ''Kind of nil type'', s1)
             | Some t \<Rightarrow>
                 if \<not> isStructPtr t then (Err (NotStructPointer t), s1)
                 else if \<not> private' ob1 then
                   (if typeTaken s1 t then (Err (TwoUnnamed t), s1)
                    else Provide (s1\<lparr>unnamedType := AList.update t True (unnamedType s1),
                                      unnamed := unnamed s1 @ [ob]\<rparr>) obs)
                 else Provide (s1\<lparr>unnamed := unnamed s1 @ [ob]\<rparr>) obs)
          else if map_of (named s1) (Name ob1) \<noteq> None then (Err (TwoNamed (Name ob1)), s1)
          else Provide (s1\<lparr>named := AList.update (Name ob1) ob (named s1)\<rparr>) obs)"


section \<open>Populate\<close>

text \<open>\<open>&Object{...}\<close>: a new object in the store; its pointer is its index.\<close>

definition allocObject :: "state \<Rightarrow> Object \<Rightarrow> nat \<times> state" where
  "allocObject s ob = (length (objs s), s\<lparr>objs := objs s @ [ob]\<rparr>)"

definition load :: "state \<Rightarrow> addr \<Rightarrow> val option" where
  "load s a = (if fst a < length (cells s) then valAt (cells s ! fst a) (snd a) else None)"

definition storeAt :: "state \<Rightarrow> addr \<Rightarrow> val \<Rightarrow> state" where
  "storeAt s a v = s\<lparr>cells := (cells s)[fst a := valUpd (cells s ! fst a) (snd a) v]\<rparr>"

text \<open>The address of field \<open>i\<close> of the struct at \<open>a\<close>.\<close>

definition fieldAddr :: "addr \<Rightarrow> nat \<Rightarrow> addr" where
  "fieldAddr a i = (fst a, snd a @ [i])"

text \<open>\<open>field.Set(reflect.ValueOf(x))\<close> stores \<open>x\<close> itself in an interface field and
  its value in a field of any other type.\<close>

fun fieldSet :: "ty \<Rightarrow> dyn \<Rightarrow> val" where
  "fieldSet (Interface ms) d = VIface (Some d)"
| "fieldSet t d = snd d"

text \<open>The struct an object points to, as \<open>o.reflectType\<close> and
  \<open>o.reflectValue.Elem()\<close> give it: the struct's name and its address.\<close>

fun structOf :: "Object \<Rightarrow> (string \<times> addr) option" where
  "structOf ob =
     (case (reflectType ob, reflectValue ob) of
        (Some (Ptr (Struct n)), Some (t, VPtr (Some a))) \<Rightarrow> Some (n, a)
      | _ \<Rightarrow> None)"

text \<open>The deep-injection membership test: \<open>existing.Value == existingValue\<close> for some
  element of \<open>g.unnamed\<close> (interface equality: same dynamic type, same pointer).\<close>

definition tracked :: "state \<Rightarrow> dyn \<Rightarrow> bool" where
  "tracked s d = list_ex (\<lambda>e. Value (objs s ! e) = Some d) (unnamed s)"

text \<open>The search of lines 345-357: the first non-private unnamed object whose type is
  assignable to the field's type. \<open>Inl\<close> is a panic.\<close>

fun findAssignable :: "tenv \<Rightarrow> state \<Rightarrow> ty \<Rightarrow> nat list \<Rightarrow> string + nat option" where
  "findAssignable E s ft [] = Inr None"
| "findAssignable E s ft (e # es) =
     (if private' (objs s ! e) then findAssignable E s ft es
      else case reflectType (objs s ! e) of
             None \<Rightarrow> Inl ''AssignableTo on nil type''
           | Some t \<Rightarrow> if AssignableTo E t ft then Inr (Some e) else findAssignable E s ft es)"

text \<open>
  \<open>Graph.populateExplicit\<close> and its \<open>StructLoop\<close>. The recursion of the source is not
  structural, so both take fuel \<open>n\<close>: a recursive call spends one unit and \<open>None\<close>
  means the fuel ran out. \<open>structLoop E n s ob a T i fds\<close> is the loop at index
  \<open>i\<close>, with \<open>fds\<close> the fields from \<open>i\<close> on, \<open>a\<close> the address of the struct and
  \<open>T\<close> the object's type.
\<close>

fun populateExplicit :: "tenv \<Rightarrow> nat \<Rightarrow> state \<Rightarrow> nat \<Rightarrow> (outcome \<times> state) option"
  and structLoop :: "tenv \<Rightarrow> nat \<Rightarrow> state \<Rightarrow> nat \<Rightarrow> addr \<Rightarrow> ty \<Rightarrow> nat \<Rightarrow> StructField list
      \<Rightarrow> (outcome \<times> state) option" where
  "populateExplicit E n s ob =
     (let ob0 = objs s ! ob in
      if Name ob0 \<noteq> [] \<and> reflectType ob0 = None then Some (Panic ''Kind of nil type'', s)
      else if Name ob0 \<noteq> [] \<and> \<not> isStructPtr (the (reflectType ob0)) then Some (Nil, s)
      else case structOf ob0 of
             None \<Rightarrow> Some (Panic ''NumField of a value that is no struct'', s)
           | Some (sn, a) \<Rightarrow> structLoop E n s ob a (Ptr (Struct sn)) 0 (structFields E sn))"
| "structLoop E n s ob a T i [] = Some (Nil, s)"
| "structLoop E n s ob a T i (fd # fds) =
     (case load s (fieldAddr a i) of
        None \<Rightarrow> Some (Panic ''Field of a value that is no struct'', s)
      | Some field \<Rightarrow>
     (case parseTag (unquote E) (fieldTag fd) of
        (tg, Some err) \<Rightarrow> Some (Err (UnexpectedTagFormat (fieldTag fd) (fieldName fd) T), s)
      | (None, None) \<Rightarrow> structLoop E n s ob a T (i + 1) fds
      | (Some tg, None) \<Rightarrow>
          if \<not> canSet fd then Some (Err (UnexportedField (fieldName fd) T), s)
          else if Inline tg \<and> Kind (fieldType fd) \<noteq> KStruct
          then Some (Err (InlineOnNonInlined (fieldName fd) T), s)
          else if \<not> isNilOrZero field then
            (if isStructPtr (fieldType fd) \<and> \<not> Private tg then
               (let existingValue = (fieldType fd, field) in
                if tracked s existingValue then structLoop E n s ob a T (i + 1) fds
                else
                  (case allocObject s (newObject (Some existingValue)) of
                     (existingObject, s1) \<Rightarrow>
                  (case Provide s1 [existingObject] of
                     (Nil, s2) \<Rightarrow>
                       (case n of
                          0 \<Rightarrow> None
                        | Suc m \<Rightarrow>
                            (case populateExplicit E m s2 existingObject of
                               None \<Rightarrow> None
                             | Some (Nil, s3) \<Rightarrow> structLoop E n s3 ob a T (i + 1) fds
                             | Some (r, s3) \<Rightarrow> Some (r, s3)))
                   | (Err e, s2) \<Rightarrow> structLoop E n s2 ob a T (i + 1) fds
                   | (Panic m, s2) \<Rightarrow> Some (Panic m, s2))))
             else structLoop E n s ob a T (i + 1) fds)
          else if tagName tg \<noteq> [] then
            (case map_of (named s) (tagName tg) of
               None \<Rightarrow> Some (Err (NamedNotFound (tagName tg) (fieldName fd) T), s)
             | Some existing \<Rightarrow>
                 (case (reflectType (objs s ! existing), Value (objs s ! existing)) of
                    (Some et, Some d) \<Rightarrow>
                      if \<not> AssignableTo E et (fieldType fd)
                      then Some (Err (NamedNotAssignable (tagName tg) (fieldType fd) (fieldName fd) et T), s)
                      else structLoop E n
                             (addDep (storeAt s (fieldAddr a i) (fieldSet (fieldType fd) d))
                                ob (fieldName fd) existing)
                             ob a T (i + 1) fds
                  | _ \<Rightarrow> Some (Panic ''AssignableTo on nil type'', s)))
          else if Kind (fieldType fd) = KStruct then
            (if Private tg then Some (Err (PrivateOnInline (fieldName fd) T), s)
             else if \<not> Inline tg then Some (Err (InlineTagRequired (fieldName fd) T), s)
             else
               (case allocObject s
                       ((newObject (Some (Ptr (fieldType fd), VPtr (Some (fieldAddr a i)))))
                          \<lparr>private' := True, embedded := anonymous fd\<rparr>) of
                  (inlineObject, s1) \<Rightarrow>
               (case Provide s1 [inlineObject] of
                  (Nil, s2) \<Rightarrow> structLoop E n s2 ob a T (i + 1) fds
                | (r, s2) \<Rightarrow> Some (r, s2))))
          else if Kind (fieldType fd) = KInterface then structLoop E n s ob a T (i + 1) fds
          else if Kind (fieldType fd) = KMap then
            (if \<not> Private tg then Some (Err (MapNotPrivate (fieldName fd) T), s)
             else structLoop E n
                    ((storeAt s (fieldAddr a i) (VMap (Some (maps s))))\<lparr>maps := maps s + 1\<rparr>)
                    ob a T (i + 1) fds)
          else if \<not> isStructPtr (fieldType fd) then Some (Err (UnsupportedField (fieldName fd) T), s)
          else
            (case (if \<not> Private tg then findAssignable E s (fieldType fd) (unnamed s) else Inr None) of
               Inl m \<Rightarrow> Some (Panic m, s)
             | Inr (Some existing) \<Rightarrow>
                 (case Value (objs s ! existing) of
                    None \<Rightarrow> Some (Panic ''Set of the zero Value'', s)
                  | Some d \<Rightarrow>
                      structLoop E n
                        (addDep (storeAt s (fieldAddr a i) (fieldSet (fieldType fd) d))
                           ob (fieldName fd) existing)
                        ob a T (i + 1) fds)
             | Inr None \<Rightarrow>
                 (case fieldType fd of
                    Ptr et \<Rightarrow>
                      (case zeroVal E n et of
                         None \<Rightarrow> None
                       | Some z \<Rightarrow>
                      (let newValue = VPtr (Some (length (cells s), []));
                           s0 = s\<lparr>cells := cells s @ [z]\<rparr>
                       in
                       (case allocObject s0
                               ((newObject (Some (fieldType fd, newValue)))
                                  \<lparr>private' := Private tg, created := True\<rparr>) of
                          (createdObject, s1) \<Rightarrow>
                       (case Provide s1 [createdObject] of
                          (Nil, s2) \<Rightarrow>
                            (case n of
                               0 \<Rightarrow> None
                             | Suc m \<Rightarrow>
                                 (case populateExplicit E m s2 createdObject of
                                    None \<Rightarrow> None
                                  | Some (Nil, s3) \<Rightarrow>
                                      structLoop E n
                                        (addDep (storeAt s3 (fieldAddr a i) newValue)
                                           ob (fieldName fd) createdObject)
                                        ob a T (i + 1) fds
                                  | Some (r, s3) \<Rightarrow> Some (r, s3)))
                        | (r, s2) \<Rightarrow> Some (r, s2)))))
                  | _ \<Rightarrow> Some (Panic ''Elem of a type that is no pointer'', s)))))"


declare Provide.simps [simp del] populateExplicit.simps [simp del] structLoop.simps [simp del]

text \<open>
  The inner loop of \<open>populateUnnamedInterface\<close> (lines 440-463) over \<open>g.unnamed\<close>,
  with the local variable \<open>found\<close>. It returns what the loop ended with, the state,
  and \<open>found\<close>.
\<close>

fun assignLoop :: "tenv \<Rightarrow> state \<Rightarrow> nat \<Rightarrow> addr \<Rightarrow> ty \<Rightarrow> nat \<Rightarrow> StructField \<Rightarrow> nat option \<Rightarrow> nat list
    \<Rightarrow> outcome \<times> state \<times> nat option" where
  "assignLoop E s ob a T i fd found [] = (Nil, s, found)"
| "assignLoop E s ob a T i fd found (e # es) =
     (if private' (objs s ! e) then assignLoop E s ob a T i fd found es
      else case reflectType (objs s ! e) of
             None \<Rightarrow> (Panic ''AssignableTo on nil type'', s, found)
           | Some t \<Rightarrow>
               if AssignableTo E t (fieldType fd) then
                 (case found of
                    Some f \<Rightarrow>
                      (Err (TwoAssignable (fieldName fd) T
                              (the (reflectType (objs s ! f))) (Value (objs s ! f))
                              t (reflectValue (objs s ! e))), s, found)
                  | None \<Rightarrow>
                      (case Value (objs s ! e) of
                         None \<Rightarrow> (Panic ''Set of the zero Value'', s, found)
                       | Some d \<Rightarrow>
                           assignLoop E
                             (addDep (storeAt s (fieldAddr a i) (fieldSet (fieldType fd) d))
                                ob (fieldName fd) e)
                             ob a T i fd (Some e) es))
               else assignLoop E s ob a T i fd found es)"

text \<open>The field loop of \<open>populateUnnamedInterface\<close>. \<open>isNilOrZero\<close> calls
  \<open>field.Interface()\<close>, which panics on an unexported field.\<close>

fun interfaceLoop :: "tenv \<Rightarrow> state \<Rightarrow> nat \<Rightarrow> addr \<Rightarrow> ty \<Rightarrow> nat \<Rightarrow> StructField list \<Rightarrow> outcome \<times> state" where
  "interfaceLoop E s ob a T i [] = (Nil, s)"
| "interfaceLoop E s ob a T i (fd # fds) =
     (case load s (fieldAddr a i) of
        None \<Rightarrow> (Panic ''Field of a value that is no struct'', s)
      | Some field \<Rightarrow>
     (case parseTag (unquote E) (fieldTag fd) of
        (tg, Some err) \<Rightarrow> (Err (UnexpectedTagFormat (fieldTag fd) (fieldName fd) T), s)
      | (None, None) \<Rightarrow> interfaceLoop E s ob a T (i + 1) fds
      | (Some tg, None) \<Rightarrow>
          if Kind (fieldType fd) \<noteq> KInterface then interfaceLoop E s ob a T (i + 1) fds
          else if Private tg then (Err (PrivateOnInterface (fieldName fd) T), s)
          else if \<not> canSet fd then (Panic ''Interface of an unexported field'', s)
          else if \<not> isNilOrZero field then interfaceLoop E s ob a T (i + 1) fds
          else if tagName tg \<noteq> [] then (Panic ''unhandled named instance'', s)
          else
            (case assignLoop E s ob a T i fd None (unnamed s) of
               (Nil, s', Some f) \<Rightarrow> interfaceLoop E s' ob a T (i + 1) fds
             | (Nil, s', None) \<Rightarrow> (Err (NoAssignable (fieldName fd) T), s')
             | (r, s', f) \<Rightarrow> (r, s'))))"

definition populateUnnamedInterface :: "tenv \<Rightarrow> state \<Rightarrow> nat \<Rightarrow> outcome \<times> state" where
  "populateUnnamedInterface E s ob =
     (let ob0 = objs s ! ob in
      if Name ob0 \<noteq> [] \<and> reflectType ob0 = None then (Panic ''Kind of nil type'', s)
      else if Name ob0 \<noteq> [] \<and> \<not> isStructPtr (the (reflectType ob0)) then (Nil, s)
      else case structOf ob0 of
             None \<Rightarrow> (Panic ''NumField of a value that is no struct'', s)
           | Some (sn, a) \<Rightarrow> interfaceLoop E s ob a (Ptr (Struct sn)) 0 (structFields E sn))"

text \<open>
  \<open>Graph.Populate\<close>: four loops. Go visits the entries of the map \<open>g.named\<close> in an
  order of its own choosing; that order is an argument (\<open>ord1\<close> for the first loop,
  \<open>ord4\<close> for the last), a list of names. The second loop runs by index over a slice
  that grows under it, so it takes fuel \<open>k\<close> as well.
\<close>

definition namedObjects :: "state \<Rightarrow> string list \<Rightarrow> nat list" where
  "namedObjects s ord = List.map_filter (map_of (named s)) ord"

fun explicitAll :: "tenv \<Rightarrow> nat \<Rightarrow> state \<Rightarrow> nat list \<Rightarrow> (outcome \<times> state) option" where
  "explicitAll E n s [] = Some (Nil, s)"
| "explicitAll E n s (ob # obs) =
     (if Complete (objs s ! ob) then explicitAll E n s obs
      else case populateExplicit E n s ob of
             None \<Rightarrow> None
           | Some (Nil, s') \<Rightarrow> explicitAll E n s' obs
           | Some (r, s') \<Rightarrow> Some (r, s'))"

fun explicitFrom :: "tenv \<Rightarrow> nat \<Rightarrow> nat \<Rightarrow> state \<Rightarrow> nat \<Rightarrow> (outcome \<times> state) option" where
  "explicitFrom E n k s i =
     (if i = length (unnamed s) then Some (Nil, s)
      else if i > length (unnamed s) then Some (Panic ''index out of range'', s)
      else case k of
             0 \<Rightarrow> None
           | Suc k' \<Rightarrow>
               (let ob = unnamed s ! i in
                if Complete (objs s ! ob) then explicitFrom E n k' s (i + 1)
                else case populateExplicit E n s ob of
                       None \<Rightarrow> None
                     | Some (Nil, s') \<Rightarrow> explicitFrom E n k' s' (i + 1)
                     | Some (r, s') \<Rightarrow> Some (r, s')))"

fun interfaceAll :: "tenv \<Rightarrow> state \<Rightarrow> nat list \<Rightarrow> outcome \<times> state" where
  "interfaceAll E s [] = (Nil, s)"
| "interfaceAll E s (ob # obs) =
     (if Complete (objs s ! ob) then interfaceAll E s obs
      else case populateUnnamedInterface E s ob of
             (Nil, s') \<Rightarrow> interfaceAll E s' obs
           | (r, s') \<Rightarrow> (r, s'))"

definition Populate :: "tenv \<Rightarrow> nat \<Rightarrow> string list \<Rightarrow> string list \<Rightarrow> state \<Rightarrow> (outcome \<times> state) option" where
  "Populate E n ord1 ord4 s =
     (case explicitAll E n s (namedObjects s ord1) of
        None \<Rightarrow> None
      | Some (Nil, s1) \<Rightarrow>
          (case explicitFrom E n n s1 0 of
             None \<Rightarrow> None
           | Some (Nil, s2) \<Rightarrow>
               (case interfaceAll E s2 (unnamed s2) of
                  (Nil, s3) \<Rightarrow> Some (interfaceAll E s3 (namedObjects s3 ord4))
                | (r, s3) \<Rightarrow> Some (r, s3))
           | Some (r, s2) \<Rightarrow> Some (r, s2))
      | Some (r, s1) \<Rightarrow> Some (r, s1))"

declare explicitFrom.simps [simp del]

section \<open>Notions used in the statements\<close>

text \<open>
  \<open>candidate\<close>: what both searches over \<open>g.unnamed\<close> look for, a non-private object
  whose type is assignable to the field's type. \<open>provided\<close>: the object went through
  \<open>Provide\<close> with a non-nil value (its \<open>reflectType\<close> and \<open>reflectValue\<close> are set).
  \<open>assign\<close>: the two statements \<open>field.Set(reflect.ValueOf(existing.Value))\<close> and
  \<open>o.addDep(fieldName, existing)\<close>.
\<close>

definition candidate :: "tenv \<Rightarrow> state \<Rightarrow> ty \<Rightarrow> nat \<Rightarrow> bool" where
  "candidate E s ft e =
     (\<not> private' (objs s ! e) \<and>
      (case reflectType (objs s ! e) of None \<Rightarrow> False | Some t \<Rightarrow> AssignableTo E t ft))"

definition candidates :: "tenv \<Rightarrow> state \<Rightarrow> ty \<Rightarrow> nat list" where
  "candidates E s ft = filter (candidate E s ft) (unnamed s)"

definition provided :: "state \<Rightarrow> nat \<Rightarrow> bool" where
  "provided s e = (e < length (objs s) \<and> Value (objs s ! e) \<noteq> None
      \<and> reflectType (objs s ! e) = map_option fst (Value (objs s ! e))
      \<and> reflectValue (objs s ! e) = Value (objs s ! e))"

definition assign :: "state \<Rightarrow> nat \<Rightarrow> addr \<Rightarrow> nat \<Rightarrow> StructField \<Rightarrow> nat \<Rightarrow> state" where
  "assign s ob a i fd e =
     addDep (storeAt s (fieldAddr a i) (fieldSet (fieldType fd) (the (Value (objs s ! e)))))
       ob (fieldName fd) e"

text \<open>
  \<open>registerCreated\<close>: the state after lines 360-368, that is \<open>reflect.New\<close> of the
  pointee type (a new cell holding \<open>z\<close>), \<open>&Object{Value, private, created: true}\<close>
  and \<open>g.Provide\<close> of it. \<open>registerExisting\<close>: the state after lines 233-238,
  \<open>&Object{Value: existingValue}\<close> and \<open>g.Provide\<close> of it.
\<close>

definition registerCreated :: "state \<Rightarrow> ty \<Rightarrow> val \<Rightarrow> bool \<Rightarrow> state" where
  "registerCreated s ft z priv =
     snd (Provide
            (snd (allocObject (s\<lparr>cells := cells s @ [z]\<rparr>)
                    ((newObject (Some (ft, VPtr (Some (length (cells s), [])))))
                       \<lparr>private' := priv, created := True\<rparr>)))
            [length (objs s)])"

definition registerExisting :: "state \<Rightarrow> dyn \<Rightarrow> state" where
  "registerExisting s d =
     snd (Provide (snd (allocObject s (newObject (Some d)))) [length (objs s)])"

text \<open>
  \<open>takenTracked\<close>: every type that \<open>g.unnamedType\<close> marks as taken is the type of some
  non-private object of \<open>g.unnamed\<close>. \<open>Provide\<close> keeps it (lemma
  \<open>Provide_keeps_graph\<close>).
\<close>

definition takenTracked :: "state \<Rightarrow> bool" where
  "takenTracked s =
     list_all (\<lambda>tb. snd tb \<longrightarrow>
                 list_ex (\<lambda>e. \<not> private' (objs s ! e) \<and> reflectType (objs s ! e) = Some (fst tb))
                   (unnamed s))
       (unnamedType s)"

text \<open>
  \<open>andThen\<close>: the idiom \<open>if err := f(); err != nil { return err }\<close> followed by the
  rest of the function. The rest runs in the state \<open>f\<close> left when \<open>f\<close> returned nil;
  an error or a panic of \<open>f\<close> is the result, with the state \<open>f\<close> left; when
  \<open>f\<close> does not return, nothing does. \<open>andThenT\<close> is the same for the functions
  that always return.
\<close>

definition andThen :: "(outcome \<times> state) option \<Rightarrow> (state \<Rightarrow> (outcome \<times> state) option)
    \<Rightarrow> (outcome \<times> state) option" where
  "andThen r f = (case r of None \<Rightarrow> None | Some (Nil, s) \<Rightarrow> f s | Some (x, s) \<Rightarrow> Some (x, s))"

definition andThenT :: "outcome \<times> state \<Rightarrow> (state \<Rightarrow> outcome \<times> state) \<Rightarrow> outcome \<times> state" where
  "andThenT r f = (case r of (Nil, s) \<Rightarrow> f s | (x, s) \<Rightarrow> (x, s))"

text \<open>
  \<open>explicitIter E n j s i\<close>: the next \<open>j\<close> iterations of the second loop of
  \<open>Populate\<close>, standing at index \<open>i\<close> in state \<open>s\<close>. It is \<open>None\<close> when the loop
  has fewer iterations left (or a call runs out of fuel).
  \<open>capabilityPasses\<close>: the third and the fourth loop of \<open>Populate\<close>.
  \<open>afterObject E n ord4 j\<close>: what \<open>Populate\<close> does after iteration \<open>j\<close> of its
  second loop, namely the rest of that loop and the two loops after it.
\<close>

fun explicitIter :: "tenv \<Rightarrow> nat \<Rightarrow> nat \<Rightarrow> state \<Rightarrow> nat \<Rightarrow> (outcome \<times> state) option" where
  "explicitIter E n 0 s i = Some (Nil, s)"
| "explicitIter E n (Suc j) s i =
     (if i < length (unnamed s) then
        andThen (if Complete (objs s ! (unnamed s ! i)) then Some (Nil, s)
                 else populateExplicit E n s (unnamed s ! i))
          (\<lambda>s'. explicitIter E n j s' (i + 1))
      else None)"

definition capabilityPasses :: "tenv \<Rightarrow> string list \<Rightarrow> state \<Rightarrow> outcome \<times> state" where
  "capabilityPasses E ord4 s =
     andThenT (interfaceAll E s (unnamed s)) (\<lambda>s3. interfaceAll E s3 (namedObjects s3 ord4))"

definition afterObject :: "tenv \<Rightarrow> nat \<Rightarrow> string list \<Rightarrow> nat \<Rightarrow> state \<Rightarrow> (outcome \<times> state) option" where
  "afterObject E n ord4 j s =
     andThen (explicitFrom E n (n - Suc j) s (Suc j)) (\<lambda>s2. Some (capabilityPasses E ord4 s2))"

text \<open>
  \<open>keepsPointers s s'\<close>: every address that holds a non-nil pointer in \<open>s\<close> holds the
  same pointer in \<open>s'\<close>. \<open>diverge p q\<close>: the paths \<open>p\<close> and \<open>q\<close> part at some index,
  so neither leads into the other. \<open>zeroAt s A\<close>: the address \<open>A\<close> holds a zero value.
\<close>

definition keepsPointers :: "state \<Rightarrow> state \<Rightarrow> bool" where
  "keepsPointers s s' =
     (\<forall>A p. load s A = Some (VPtr (Some p)) \<longrightarrow> load s' A = Some (VPtr (Some p)))"

fun diverge :: "nat list \<Rightarrow> nat list \<Rightarrow> bool" where
  "diverge (i # p) (j # q) = (i \<noteq> j \<or> diverge p q)"
| "diverge p q = False"

definition zeroAt :: "state \<Rightarrow> addr \<Rightarrow> bool" where
  "zeroAt s A = (case load s A of None \<Rightarrow> False | Some z \<Rightarrow> isNilOrZero z)"

definition keptBy :: "state \<Rightarrow> (outcome \<times> state) option \<Rightarrow> bool" where
  "keptBy s r = (case r of None \<Rightarrow> True | Some (x, s') \<Rightarrow> keepsPointers s s')"

section \<open>The shape of a metadata string\<close>

text \<open>
  This section follows the specification's words, not the source: the metadata is a
  sequence of \<open>key:"quoted-value"\<close> pairs separated by spaces. A pair is given by the
  number of spaces before it, its key (no space, colon or quote in it) and the items of
  its quoted value, each either a plain byte (no quote, no backslash) or a backslash
  followed by any byte. \<open>renderPair\<close> writes a pair out; \<open>quoted\<close> is the value with
  its two quotes, the text handed to \<open>strconv.Unquote\<close>.
\<close>

definition keyChar :: "char \<Rightarrow> bool" where
  "keyChar c = (c \<noteq> space \<and> c \<noteq> colon \<and> c \<noteq> dquote)"

datatype item = Plain char | Escaped char

fun renderItem :: "item \<Rightarrow> string" where
  "renderItem (Plain c) = [c]"
| "renderItem (Escaped c) = [backslash, c]"

fun wfItem :: "item \<Rightarrow> bool" where
  "wfItem (Plain c) = (c \<noteq> dquote \<and> c \<noteq> backslash)"
| "wfItem (Escaped c) = True"

definition quoted :: "item list \<Rightarrow> string" where
  "quoted its = dquote # concat (map renderItem its) @ [dquote]"

type_synonym pair = "nat \<times> string \<times> item list"

fun renderPair :: "pair \<Rightarrow> string" where
  "renderPair (k, nm, its) = replicate k space @ nm @ colon # quoted its"

fun wfPair :: "pair \<Rightarrow> bool" where
  "wfPair (k, nm, its) = (list_all keyChar nm \<and> list_all wfItem its)"

definition renderPairs :: "pair list \<Rightarrow> string" where
  "renderPairs ps = concat (map renderPair ps)"

definition keys :: "pair list \<Rightarrow> string list" where
  "keys ps = map (\<lambda>p. fst (snd p)) ps"

section \<open>Concrete programs used below\<close>

text \<open>
  \<open>strconv.Unquote\<close> on the inputs that hold no escape: a double-quoted text of ASCII
  bytes without backslash, quote or newline is unquoted to the text between the quotes,
  as the library does. Every other input is refused here; the library accepts some of
  them (escape sequences), and none of them occurs in the programs below.
\<close>

definition unquotePlain :: "string \<Rightarrow> string option" where
  "unquotePlain q =
     (if 2 \<le> length q \<and> hd q = dquote \<and> last q = dquote
         \<and> list_all (\<lambda>c. c \<noteq> dquote \<and> c \<noteq> backslash \<and> c \<noteq> CHR 0x0A \<and> \<not> digit7 c)
              (butlast (tl q))
      then Some (butlast (tl q)) else None)"

text \<open>The tags \<open>inject:""\<close> and \<open>inject:"private"\<close>, and an exported field.\<close>

definition tagBare :: string where
  "tagBare = ''inject:'' @ [dquote, dquote]"

definition tagPrivate :: string where
  "tagPrivate = ''inject:'' @ [dquote] @ ''private'' @ [dquote]"

definition exportedField :: "string \<Rightarrow> ty \<Rightarrow> string \<Rightarrow> StructField" where
  "exportedField n t g = \<lparr>fieldName = n, fieldType = t, fieldTag = g, canSet = True, anonymous = False\<rparr>"

text \<open>A graph before any \<open>Provide\<close>, over a given memory and object store.\<close>

definition emptyGraph :: "val list \<Rightarrow> Object list \<Rightarrow> state" where
  "emptyGraph cs obs = \<lparr>cells = cs, maps = 0, objs = obs, unnamed = [], unnamedType = [], named = []\<rparr>"

text \<open>\<open>type T struct{}\<close>; \<open>&Object{Value: &T{}, Fields: map[string]*Object{}}\<close>.\<close>

definition sEmptyMap :: state where
  "sEmptyMap = emptyGraph [VStruct []]
     [(newObject (Some (Ptr (Struct ''T''), VPtr (Some (0, [])))))\<lparr>Fields := Some []\<rparr>]"

text \<open>Two \<open>&T{}\<close>, each in an \<open>Object\<close> of its own, the second one private.\<close>

definition sTwoT :: state where
  "sTwoT = emptyGraph [VStruct [], VStruct []]
     [newObject (Some (Ptr (Struct ''T''), VPtr (Some (0, [])))),
      newObject (Some (Ptr (Struct ''T''), VPtr (Some (1, []))))]"

definition sTwoTPrivate :: state where
  "sTwoTPrivate = emptyGraph [VStruct [], VStruct []]
     [newObject (Some (Ptr (Struct ''T''), VPtr (Some (0, [])))),
      (newObject (Some (Ptr (Struct ''T''), VPtr (Some (1, [])))))\<lparr>private' := True\<rparr>]"

text \<open>
  \<open>type Impl1 struct{}\<close> and \<open>type Impl2 struct{}\<close>, both with a method \<open>Do\<close>;
  \<open>type User struct { D Doer `inject:""` }\<close> with \<open>type Doer interface { Do() }\<close>.
  \<open>sCap1\<close> is the graph after providing an \<open>Impl1\<close> and a \<open>User\<close>, \<open>sCap2\<close>
  after providing an \<open>Impl1\<close>, an \<open>Impl2\<close> and a \<open>User\<close>.
\<close>

definition ECap :: tenv where
  "ECap = \<lparr>structFields = (\<lambda>n.
              if n = ''User'' then [exportedField ''D'' (Interface [''Do'']) tagBare] else []),
           methodSet = (\<lambda>t. if t = Ptr (Struct ''Impl1'') \<or> t = Ptr (Struct ''Impl2'') then [''Do''] else []),
           unquote = unquotePlain\<rparr>"

definition fieldD :: StructField where
  "fieldD = exportedField ''D'' (Interface [''Do'']) tagBare"

definition sCap1 :: state where
  "sCap1 = snd (Provide (emptyGraph [VStruct [], VStruct [VIface None]]
     [newObject (Some (Ptr (Struct ''Impl1''), VPtr (Some (0, [])))),
      newObject (Some (Ptr (Struct ''User''), VPtr (Some (1, []))))]) [0, 1])"

definition sCap2 :: state where
  "sCap2 = snd (Provide (emptyGraph [VStruct [], VStruct [], VStruct [VIface None]]
     [newObject (Some (Ptr (Struct ''Impl1''), VPtr (Some (0, [])))),
      newObject (Some (Ptr (Struct ''Impl2''), VPtr (Some (1, [])))),
      newObject (Some (Ptr (Struct ''User''), VPtr (Some (2, []))))]) [0, 1, 2])"

text \<open>\<open>&Object{Name: "cfg", Value: nil}\<close>\<close>

definition sNilNamed :: state where
  "sNilNamed = emptyGraph [] [(newObject None)\<lparr>Name := ''cfg''\<rparr>]"

text \<open>
  \<open>type Node struct { Next *Node `inject:"private"` }\<close>; \<open>sNode\<close> is the graph after
  \<open>g.Provide(&Object{Value: &Node{}})\<close>. \<open>freshNode s ob\<close>: the object \<open>ob\<close> is
  unnamed and points to a \<open>Node\<close> whose \<open>Next\<close> is nil.
\<close>

definition fieldNext :: StructField where
  "fieldNext = exportedField ''Next'' (Ptr (Struct ''Node'')) tagPrivate"

definition ENode :: tenv where
  "ENode = \<lparr>structFields = (\<lambda>n. if n = ''Node'' then [fieldNext] else []),
            methodSet = (\<lambda>t. []),
            unquote = unquotePlain\<rparr>"

definition sNode :: state where
  "sNode = snd (Provide (emptyGraph [VStruct [VPtr None]]
      [newObject (Some (Ptr (Struct ''Node''), VPtr (Some (0, []))))]) [0])"

definition freshNode :: "state \<Rightarrow> nat \<Rightarrow> bool" where
  "freshNode s ob = (\<exists>c. Name (objs s ! ob) = []
      \<and> reflectType (objs s ! ob) = Some (Ptr (Struct ''Node''))
      \<and> reflectValue (objs s ! ob) = Some (Ptr (Struct ''Node''), VPtr (Some (c, [])))
      \<and> c < length (cells s) \<and> cells s ! c = VStruct [VPtr None])"

text \<open>
  The types of the deep-injection test:
  \<open>type ServiceA struct { Name string }\<close>,
  \<open>type ServiceB struct { A *ServiceA `inject:""` }\<close>,
  \<open>type ServiceC struct { B *ServiceB `inject:""` }\<close>.
  \<open>sAB\<close>: a \<open>ServiceA\<close> and a \<open>ServiceB{}\<close> provided. \<open>sB\<close>: a \<open>ServiceB{}\<close>
  provided. \<open>sDeep\<close>: a \<open>ServiceA\<close> and a \<open>ServiceC{B: &ServiceB{}}\<close> provided
  (cell 1 is the \<open>ServiceB\<close> built by hand). \<open>sDup\<close>: a \<open>ServiceB{}\<close> (cell 0) and a
  \<open>ServiceC{B: &ServiceB{}}\<close> provided (cell 1 is the \<open>ServiceB\<close> built by hand).
\<close>

definition EDeep :: tenv where
  "EDeep = \<lparr>structFields = (\<lambda>n.
            if n = ''ServiceA'' then [exportedField ''Name'' (Basic ''string'') []]
            else if n = ''ServiceB'' then [exportedField ''A'' (Ptr (Struct ''ServiceA'')) tagBare]
            else if n = ''ServiceC'' then [exportedField ''B'' (Ptr (Struct ''ServiceB'')) tagBare]
            else []),
          methodSet = (\<lambda>t. []),
          unquote = unquotePlain\<rparr>"

definition fieldA :: StructField where
  "fieldA = exportedField ''A'' (Ptr (Struct ''ServiceA'')) tagBare"

definition sAB :: state where
  "sAB = snd (Provide (emptyGraph [VStruct [VBasic 1], VStruct [VPtr None]]
         [newObject (Some (Ptr (Struct ''ServiceA''), VPtr (Some (0, [])))),
          newObject (Some (Ptr (Struct ''ServiceB''), VPtr (Some (1, []))))]) [0, 1])"

definition sB :: state where
  "sB = snd (Provide (emptyGraph [VStruct [VPtr None]]
         [newObject (Some (Ptr (Struct ''ServiceB''), VPtr (Some (0, []))))]) [0])"

definition sDeep :: state where
  "sDeep = snd (Provide (emptyGraph [VStruct [VBasic 1], VStruct [VPtr None], VStruct [VPtr (Some (1, []))]]
         [newObject (Some (Ptr (Struct ''ServiceA''), VPtr (Some (0, [])))),
          newObject (Some (Ptr (Struct ''ServiceC''), VPtr (Some (2, []))))]) [0, 1])"

definition sDup :: state where
  "sDup = snd (Provide (emptyGraph [VStruct [VPtr None], VStruct [VPtr None], VStruct [VPtr (Some (1, []))]]
         [newObject (Some (Ptr (Struct ''ServiceB''), VPtr (Some (0, [])))),
          newObject (Some (Ptr (Struct ''ServiceC''), VPtr (Some (2, []))))]) [0, 1])"

definition fieldB :: StructField where
  "fieldB = exportedField ''B'' (Ptr (Struct ''ServiceB'')) tagBare"

text \<open>
  A cycle built by hand: \<open>type CircularA struct { B *CircularB `inject:""` }\<close>,
  \<open>type CircularB struct { A *CircularA `inject:""` }\<close>, \<open>a.B = b\<close>, \<open>b.A = a\<close>, both
  provided.
\<close>

definition ECycle :: tenv where
  "ECycle = \<lparr>structFields = (\<lambda>n.
              if n = ''CircularA'' then [exportedField ''B'' (Ptr (Struct ''CircularB'')) tagBare]
              else if n = ''CircularB'' then [exportedField ''A'' (Ptr (Struct ''CircularA'')) tagBare]
              else []),
            methodSet = (\<lambda>t. []),
            unquote = unquotePlain\<rparr>"

definition sCycle :: state where
  "sCycle = snd (Provide (emptyGraph [VStruct [VPtr (Some (1, []))], VStruct [VPtr (Some (0, []))]]
         [newObject (Some (Ptr (Struct ''CircularA''), VPtr (Some (0, [])))),
          newObject (Some (Ptr (Struct ''CircularB''), VPtr (Some (1, []))))]) [0, 1])"

text \<open>\<open>&Object{Name: "port", Value: 8080}\<close>, provided.\<close>

definition sNamedInt :: state where
  "sNamedInt = snd (Provide (emptyGraph []
      [(newObject (Some (Basic ''int'', VBasic 8080)))\<lparr>Name := ''port''\<rparr>]) [0])"

text \<open>\<open>sCap0\<close> is the graph after providing a \<open>User\<close> alone.\<close>

definition sCap0 :: state where
  "sCap0 = snd (Provide (emptyGraph [VStruct [VIface None]]
     [newObject (Some (Ptr (Struct ''User''), VPtr (Some (0, []))))]) [0])"

text \<open>
  \<open>type Inner struct { x int `inject:""` }\<close> (the tagged field is unexported) and
  \<open>type Outer struct { In *Inner `inject:""` }\<close>; \<open>sOuter\<close> is the graph after
  \<open>g.Provide(&Object{Value: &Outer{}})\<close>.
\<close>

definition EOuter :: tenv where
  "EOuter = \<lparr>structFields = (\<lambda>n.
               if n = ''Inner'' then [\<lparr>fieldName = ''x'', fieldType = Basic ''int'', fieldTag = tagBare,
                                         canSet = False, anonymous = False\<rparr>]
               else if n = ''Outer'' then [exportedField ''In'' (Ptr (Struct ''Inner'')) tagBare]
               else []),
             methodSet = (\<lambda>t. []),
             unquote = unquotePlain\<rparr>"

definition sOuter :: state where
  "sOuter = snd (Provide (emptyGraph [VStruct [VPtr None]]
      [newObject (Some (Ptr (Struct ''Outer''), VPtr (Some (0, []))))]) [0])"

section \<open>Auxiliary facts about the memory and the object store\<close>

lemma objs_storeAt [simp]: "objs (storeAt s a v) = objs s"
  and unnamed_storeAt [simp]: "unnamed (storeAt s a v) = unnamed s"
  and named_storeAt [simp]: "named (storeAt s a v) = named s"
  and unnamedType_storeAt [simp]: "unnamedType (storeAt s a v) = unnamedType s"
  by (simp_all add: storeAt_def)

lemma cells_addDep [simp]: "cells (addDep s ob f d) = cells s"
  and unnamed_addDep [simp]: "unnamed (addDep s ob f d) = unnamed s"
  and named_addDep [simp]: "named (addDep s ob f d) = named s"
  and unnamedType_addDep [simp]: "unnamedType (addDep s ob f d) = unnamedType s"
  and length_objs_addDep [simp]: "length (objs (addDep s ob f d)) = length (objs s)"
  by (simp_all add: addDep_def Let_def)

lemma addDep_nth:
  "\<exists>m. objs (addDep s ob f d) ! e = (objs s ! e)\<lparr>Fields := m\<rparr>"
proof (cases "ob < length (objs s) \<and> e = ob")
  case True
  then have "objs (addDep s ob f d) ! e = (objs s ! e)\<lparr>Fields :=
      Some (AList.update f d (case Fields (objs s ! ob) of None \<Rightarrow> [] | Some m \<Rightarrow> m))\<rparr>"
    by (simp add: addDep_def Let_def)
  then show ?thesis by (rule exI)
next
  case False
  then have "objs (addDep s ob f d) ! e = objs s ! e"
    by (cases "ob < length (objs s)") (auto simp: addDep_def Let_def list_update_beyond)
  then have "objs (addDep s ob f d) ! e = (objs s ! e)\<lparr>Fields := Fields (objs s ! e)\<rparr>"
    by simp
  then show ?thesis by blast
qed

lemma addDep_keeps [simp]:
  "private' (objs (addDep s ob f d) ! e) = private' (objs s ! e)"
  "reflectType (objs (addDep s ob f d) ! e) = reflectType (objs s ! e)"
  "reflectValue (objs (addDep s ob f d) ! e) = reflectValue (objs s ! e)"
  "Value (objs (addDep s ob f d) ! e) = Value (objs s ! e)"
  "Name (objs (addDep s ob f d) ! e) = Name (objs s ! e)"
  "Complete (objs (addDep s ob f d) ! e) = Complete (objs s ! e)"
  "created (objs (addDep s ob f d) ! e) = created (objs s ! e)"
  "embedded (objs (addDep s ob f d) ! e) = embedded (objs s ! e)"
  using addDep_nth [of s ob f d e] by auto

lemma Fields_addDep:
  "ob < length (objs s) \<Longrightarrow>
     map_of (the (Fields (objs (addDep s ob f d) ! ob))) f = Some d"
  by (simp add: addDep_def Let_def update_conv' split: option.splits)

lemma assign_keeps [simp]:
  "private' (objs (assign s ob a i fd x) ! e) = private' (objs s ! e)"
  "reflectType (objs (assign s ob a i fd x) ! e) = reflectType (objs s ! e)"
  "reflectValue (objs (assign s ob a i fd x) ! e) = reflectValue (objs s ! e)"
  "Value (objs (assign s ob a i fd x) ! e) = Value (objs s ! e)"
  by (simp_all add: assign_def)

lemma candidate_assign [simp]: "candidate E (assign s ob a i fd e) ft = candidate E s ft"
  by (rule ext) (simp add: candidate_def assign_def)

lemma valAt_valUpd: "valAt v p \<noteq> None \<Longrightarrow> valAt (valUpd v p w) p = Some w"
  by (induction v p rule: valAt.induct) (auto split: if_splits)

lemma load_storeAt: "load s a \<noteq> None \<Longrightarrow> load (storeAt s a v) a = Some v"
  by (auto simp: load_def storeAt_def valAt_valUpd split: if_splits)

lemma load_addDep [simp]: "load (addDep s ob f d) a = load s a"
  by (simp add: load_def)

lemma load_assign:
  "load s (fieldAddr a i) \<noteq> None \<Longrightarrow>
   load (assign s ob a i fd e) (fieldAddr a i) = Some (fieldSet (fieldType fd) (the (Value (objs s ! e))))"
  by (simp add: assign_def load_storeAt)

lemma assignLoop_found:
  assumes "\<forall>e\<in>set es. provided s e"
  shows "assignLoop E s ob a T i fd (Some f) es =
     (case filter (candidate E s (fieldType fd)) es of
        [] \<Rightarrow> (Nil, s, Some f)
      | e # rest \<Rightarrow>
          (Err (TwoAssignable (fieldName fd) T (the (reflectType (objs s ! f))) (Value (objs s ! f))
                  (the (reflectType (objs s ! e))) (reflectValue (objs s ! e))), s, Some f))"
  using assms
proof (induction es)
  case Nil
  then show ?case by simp
next
  case (Cons x es)
  from Cons.prems have px: "provided s x" and pes: "\<forall>e\<in>set es. provided s e"
    by simp_all
  from px obtain d where d: "Value (objs s ! x) = Some d" "reflectType (objs s ! x) = Some (fst d)"
    by (auto simp: provided_def)
  show ?case
  proof (cases "candidate E s (fieldType fd) x")
    case True
    then show ?thesis using d by (simp add: candidate_def)
  next
    case False
    then have "private' (objs s ! x) \<or> \<not> AssignableTo E (fst d) (fieldType fd)"
      using d by (simp add: candidate_def)
    then have "assignLoop E s ob a T i fd (Some f) (x # es) = assignLoop E s ob a T i fd (Some f) es"
      using d by auto
    then show ?thesis using Cons.IH[OF pes] False by simp
  qed
qed

lemma provided_assign [simp]: "provided (assign s ob a i fd e) x = provided s x"
  by (simp add: provided_def assign_def)

lemma assignLoop_none:
  assumes "\<forall>e\<in>set es. provided s e"
  shows "assignLoop E s ob a T i fd None es =
     (case filter (candidate E s (fieldType fd)) es of
        [] \<Rightarrow> (Nil, s, None)
      | e # rest \<Rightarrow>
          (case rest of
             [] \<Rightarrow> (Nil, assign s ob a i fd e, Some e)
           | e2 # rest' \<Rightarrow>
               (Err (TwoAssignable (fieldName fd) T (the (reflectType (objs s ! e))) (Value (objs s ! e))
                  (the (reflectType (objs s ! e2))) (reflectValue (objs s ! e2))),
                assign s ob a i fd e, Some e)))"
  using assms
proof (induction es)
  case Nil
  then show ?case by simp
next
  case (Cons x es)
  show ?case
  proof (cases "candidate E s (fieldType fd) x")
    case False
    from Cons.prems have px: "provided s x" and pes: "\<forall>e\<in>set es. provided s e"
      by simp_all
    from px obtain d where d: "Value (objs s ! x) = Some d" "reflectType (objs s ! x) = Some (fst d)"
      by (auto simp: provided_def)
    from False have "private' (objs s ! x) \<or> \<not> AssignableTo E (fst d) (fieldType fd)"
      using d by (simp add: candidate_def)
    then have "assignLoop E s ob a T i fd None (x # es) = assignLoop E s ob a T i fd None es"
      using d by auto
    then show ?thesis using Cons.IH[OF pes] False by simp
  next
    case True
    from Cons.prems have px: "provided s x" and pes: "\<forall>e\<in>set es. provided (assign s ob a i fd x) e"
      by simp_all
    from True px obtain t d where t: "reflectType (objs s ! x) = Some t" "AssignableTo E t (fieldType fd)"
        "\<not> private' (objs s ! x)" and d: "Value (objs s ! x) = Some d"
      by (auto simp: candidate_def provided_def split: option.splits)
    have step: "assignLoop E s ob a T i fd None (x # es) =
        assignLoop E (assign s ob a i fd x) ob a T i fd (Some x) es"
      using t d by (simp add: assign_def)
    show ?thesis
      unfolding step assignLoop_found[OF pes]
      using True by (simp split: list.splits)
  qed
qed

lemma parseTag_tagBare: "parseTag unquotePlain tagBare = (Some injectOnly, None)"
  by code_simp

lemma parseTag_tagPrivate: "parseTag unquotePlain tagPrivate = (Some injectPrivate, None)"
  by code_simp

lemma parseTag_empty: "parseTag unq [] = (None, None)"
  by (simp add: parseTag_def Extract.simps)

lemma fieldSet_interface: "Kind ft = KInterface \<Longrightarrow> fieldSet ft d = VIface (Some d)"
  by (cases ft) simp_all

lemma sCap1_eval:
  "sCap1 = \<lparr>cells = [VStruct [], VStruct [VIface None]], maps = 0,
     objs = [\<lparr>Value = Some (Ptr (Struct ''Impl1''), VPtr (Some (0, []))), Name = [], Complete = False,
               Fields = None, reflectType = Some (Ptr (Struct ''Impl1'')),
               reflectValue = Some (Ptr (Struct ''Impl1''), VPtr (Some (0, []))),
               private' = False, created = False, embedded = False\<rparr>,
             \<lparr>Value = Some (Ptr (Struct ''User''), VPtr (Some (1, []))), Name = [], Complete = False,
               Fields = None, reflectType = Some (Ptr (Struct ''User'')),
               reflectValue = Some (Ptr (Struct ''User''), VPtr (Some (1, []))),
               private' = False, created = False, embedded = False\<rparr>],
     unnamed = [0, 1],
     unnamedType = [(Ptr (Struct ''Impl1''), True), (Ptr (Struct ''User''), True)],
     named = []\<rparr>"
  by (simp add: Provide.simps sCap1_def emptyGraph_def newObject_def typeTaken_def)

lemma sCap2_eval:
  "sCap2 = \<lparr>cells = [VStruct [], VStruct [], VStruct [VIface None]], maps = 0,
     objs = [\<lparr>Value = Some (Ptr (Struct ''Impl1''), VPtr (Some (0, []))), Name = [], Complete = False,
               Fields = None, reflectType = Some (Ptr (Struct ''Impl1'')),
               reflectValue = Some (Ptr (Struct ''Impl1''), VPtr (Some (0, []))),
               private' = False, created = False, embedded = False\<rparr>,
             \<lparr>Value = Some (Ptr (Struct ''Impl2''), VPtr (Some (1, []))), Name = [], Complete = False,
               Fields = None, reflectType = Some (Ptr (Struct ''Impl2'')),
               reflectValue = Some (Ptr (Struct ''Impl2''), VPtr (Some (1, []))),
               private' = False, created = False, embedded = False\<rparr>,
             \<lparr>Value = Some (Ptr (Struct ''User''), VPtr (Some (2, []))), Name = [], Complete = False,
               Fields = None, reflectType = Some (Ptr (Struct ''User'')),
               reflectValue = Some (Ptr (Struct ''User''), VPtr (Some (2, []))),
               private' = False, created = False, embedded = False\<rparr>],
     unnamed = [0, 1, 2],
     unnamedType = [(Ptr (Struct ''Impl1''), True), (Ptr (Struct ''Impl2''), True), (Ptr (Struct ''User''), True)],
     named = []\<rparr>"
  by (simp add: Provide.simps sCap2_def emptyGraph_def newObject_def typeTaken_def)

lemma findAssignable_candidates:
  assumes "\<forall>e\<in>set es. provided s e"
  shows "findAssignable E s ft es =
           Inr (case filter (candidate E s ft) es of [] \<Rightarrow> None | c # cs \<Rightarrow> Some c)"
  using assms
proof (induction es)
  case Nil
  then show ?case by simp
next
  case (Cons x es)
  from Cons.prems have px: "provided s x" and pes: "\<forall>e\<in>set es. provided s e"
    by simp_all
  from px obtain d where d: "Value (objs s ! x) = Some d" "reflectType (objs s ! x) = Some (fst d)"
    by (auto simp: provided_def)
  show ?case
  proof (cases "candidate E s ft x")
    case True
    then show ?thesis using d by (simp add: candidate_def)
  next
    case False
    then have "private' (objs s ! x) \<or> \<not> AssignableTo E (fst d) ft"
      using d by (simp add: candidate_def)
    then have "findAssignable E s ft (x # es) = findAssignable E s ft es"
      using d by auto
    then show ?thesis using Cons.IH[OF pes] False by simp
  qed
qed

lemma zeroVal_isNilOrZero: "zeroVal E d t = Some z \<Longrightarrow> isNilOrZero z"
proof (induction E d t arbitrary: z rule: zeroVal.induct)
  case (6 E d n)
  let ?vs = "map (\<lambda>f. zeroVal E d (fieldType f)) (structFields E n)"
  from "6.prems" have all: "list_all (\<lambda>v. v \<noteq> None) ?vs" and z: "z = VStruct (map the ?vs)"
    by (auto simp: Let_def split: if_splits)
  have "isNilOrZero (the (zeroVal E d (fieldType f)))" if "f \<in> set (structFields E n)" for f
  proof -
    from all that obtain w where w: "zeroVal E d (fieldType f) = Some w"
      by (auto simp: list_all_iff)
    from "6.IH" [OF that w] w show ?thesis by simp
  qed
  then show ?case
    unfolding z by (simp add: list_all_iff)
qed simp_all

lemma Provide_registerCreated:
  assumes "priv \<or> \<not> typeTaken s (Ptr (Struct sn))"
  shows "Provide
            (snd (allocObject (s\<lparr>cells := cells s @ [z]\<rparr>)
                    ((newObject (Some (Ptr (Struct sn), VPtr (Some (length (cells s), [])))))
                       \<lparr>private' := priv, created := True\<rparr>)))
            [length (objs s)] = (Nil, registerCreated s (Ptr (Struct sn)) z priv)"
  using assms
  by (auto simp: registerCreated_def Provide.simps allocObject_def newObject_def typeTaken_def Let_def)

lemma registerCreated_facts:
  assumes "priv \<or> \<not> typeTaken s (Ptr (Struct sn))"
  shows "unnamed (registerCreated s (Ptr (Struct sn)) z priv) = unnamed s @ [length (objs s)]"
    and "objs (registerCreated s (Ptr (Struct sn)) z priv) ! length (objs s) =
           \<lparr>Value = Some (Ptr (Struct sn), VPtr (Some (length (cells s), []))), Name = [],
             Complete = False, Fields = None, reflectType = Some (Ptr (Struct sn)),
             reflectValue = Some (Ptr (Struct sn), VPtr (Some (length (cells s), []))),
             private' = priv, created = True, embedded = False\<rparr>"
    and "cells (registerCreated s (Ptr (Struct sn)) z priv) = cells s @ [z]"
  using assms
  by (auto simp: registerCreated_def Provide.simps allocObject_def newObject_def typeTaken_def Let_def)

lemma allocObject_eq: "allocObject s ob = (length (objs s), s\<lparr>objs := objs s @ [ob]\<rparr>)"
  by (simp add: allocObject_def)

lemma Provide_registerExisting:
  assumes "\<not> typeTaken s (Ptr (Struct sn))"
  shows "Provide (s\<lparr>objs := objs s @ [newObject (Some (Ptr (Struct sn), v))]\<rparr>) [length (objs s)]
           = (Nil, registerExisting s (Ptr (Struct sn), v))"
    and "unnamed (registerExisting s (Ptr (Struct sn), v)) = unnamed s @ [length (objs s)]"
    and "objs (registerExisting s (Ptr (Struct sn), v)) ! length (objs s) =
           \<lparr>Value = Some (Ptr (Struct sn), v), Name = [], Complete = False, Fields = None,
             reflectType = Some (Ptr (Struct sn)), reflectValue = Some (Ptr (Struct sn), v),
             private' = False, created = False, embedded = False\<rparr>"
    and "cells (registerExisting s (Ptr (Struct sn), v)) = cells s"
  using assms
  by (auto simp: registerExisting_def Provide.simps allocObject_def newObject_def typeTaken_def Let_def)


lemma sAB_eval:
  "sAB = \<lparr>cells = [VStruct [VBasic 1], VStruct [VPtr None]], maps = 0,
     objs = [\<lparr>Value = Some (Ptr (Struct ''ServiceA''), VPtr (Some (0, []))), Name = [], Complete = False,
               Fields = None, reflectType = Some (Ptr (Struct ''ServiceA'')),
               reflectValue = Some (Ptr (Struct ''ServiceA''), VPtr (Some (0, []))),
               private' = False, created = False, embedded = False\<rparr>,
             \<lparr>Value = Some (Ptr (Struct ''ServiceB''), VPtr (Some (1, []))), Name = [], Complete = False,
               Fields = None, reflectType = Some (Ptr (Struct ''ServiceB'')),
               reflectValue = Some (Ptr (Struct ''ServiceB''), VPtr (Some (1, []))),
               private' = False, created = False, embedded = False\<rparr>],
     unnamed = [0, 1],
     unnamedType = [(Ptr (Struct ''ServiceA''), True), (Ptr (Struct ''ServiceB''), True)],
     named = []\<rparr>"
  by (simp add: Provide.simps sAB_def emptyGraph_def newObject_def typeTaken_def)

lemma sB_eval:
  "sB = \<lparr>cells = [VStruct [VPtr None]], maps = 0,
     objs = [\<lparr>Value = Some (Ptr (Struct ''ServiceB''), VPtr (Some (0, []))), Name = [], Complete = False,
               Fields = None, reflectType = Some (Ptr (Struct ''ServiceB'')),
               reflectValue = Some (Ptr (Struct ''ServiceB''), VPtr (Some (0, []))),
               private' = False, created = False, embedded = False\<rparr>],
     unnamed = [0],
     unnamedType = [(Ptr (Struct ''ServiceB''), True)],
     named = []\<rparr>"
  by (simp add: Provide.simps sB_def emptyGraph_def newObject_def typeTaken_def)

lemma fieldA_simps:
  "fieldType fieldA = Ptr (Struct ''ServiceA'')" "canSet fieldA" "fieldName fieldA = ''A''"
  "parseTag (unquote EDeep) (fieldTag fieldA) = (Some injectOnly, None)"
  by (simp_all add: fieldA_def exportedField_def EDeep_def parseTag_tagBare)

lemma sDeep_eval:
  "sDeep = \<lparr>cells = [VStruct [VBasic 1], VStruct [VPtr None], VStruct [VPtr (Some (1, []))]], maps = 0,
     objs = [\<lparr>Value = Some (Ptr (Struct ''ServiceA''), VPtr (Some (0, []))), Name = [], Complete = False,
               Fields = None, reflectType = Some (Ptr (Struct ''ServiceA'')),
               reflectValue = Some (Ptr (Struct ''ServiceA''), VPtr (Some (0, []))),
               private' = False, created = False, embedded = False\<rparr>,
             \<lparr>Value = Some (Ptr (Struct ''ServiceC''), VPtr (Some (2, []))), Name = [], Complete = False,
               Fields = None, reflectType = Some (Ptr (Struct ''ServiceC'')),
               reflectValue = Some (Ptr (Struct ''ServiceC''), VPtr (Some (2, []))),
               private' = False, created = False, embedded = False\<rparr>],
     unnamed = [0, 1],
     unnamedType = [(Ptr (Struct ''ServiceA''), True), (Ptr (Struct ''ServiceC''), True)],
     named = []\<rparr>"
  by (simp add: Provide.simps sDeep_def emptyGraph_def newObject_def typeTaken_def)


lemma fieldB_simps:
  "fieldType fieldB = Ptr (Struct ''ServiceB'')" "canSet fieldB" "fieldName fieldB = ''B''"
  "parseTag (unquote EDeep) (fieldTag fieldB) = (Some injectOnly, None)"
  by (simp_all add: fieldB_def exportedField_def EDeep_def parseTag_tagBare)

lemma AssignableTo_same: "AssignableTo E t t"
  by (cases t) simp_all

lemma no_candidate_not_taken:
  assumes inv: "takenTracked s" and none: "candidates E s t = []"
  shows "\<not> typeTaken s t"
proof
  assume "typeTaken s t"
  then have "(t, True) \<in> set (unnamedType s)"
    by (simp add: typeTaken_def map_of_SomeD)
  with inv obtain e where e: "e \<in> set (unnamed s)" "\<not> private' (objs s ! e)"
      "reflectType (objs s ! e) = Some t"
    by (fastforce simp: takenTracked_def list_all_iff list_ex_iff)
  then have "candidate E s t e"
    by (simp add: candidate_def AssignableTo_same)
  with e(1) have "e \<in> set (candidates E s t)"
    by (simp add: candidates_def)
  with none show False by simp
qed

lemma set_update_subset: "set (AList.update k v al) \<subseteq> insert (k, v) (set al)"
  by (induction al) auto

lemma Provide_keeps_graph:
  assumes inv: "takenTracked s" "\<forall>e\<in>set (unnamed s). provided s e"
    and new: "ob \<notin> set (unnamed s)"
    and ok: "Provide s [ob] = (Nil, s')"
  shows "takenTracked s' \<and> (\<forall>e\<in>set (unnamed s'). provided s' e)"
proof -
  from ok have len: "ob < length (objs s)"
    by (auto simp: Provide.simps split: if_splits)
  define ob1 where "ob1 = (objs s ! ob)\<lparr>reflectType := map_option fst (Value (objs s ! ob)),
      reflectValue := Value (objs s ! ob)\<rparr>"
  define s1 where "s1 = s\<lparr>objs := (objs s)[ob := ob1]\<rparr>"
  have other: "objs s1 ! e = objs s ! e" if "e \<in> set (unnamed s)" for e
  proof -
    from that new have "e \<noteq> ob" by auto
    then show ?thesis by (simp add: s1_def)
  qed
  have p1: "\<forall>e\<in>set (unnamed s). provided s1 e"
    using inv(2) other by (auto simp: provided_def s1_def)
  have t1: "takenTracked s1"
    using inv(1) other unfolding takenTracked_def list_all_iff list_ex_iff
    by (auto simp: s1_def)
  have u1: "unnamed s1 = unnamed s" "unnamedType s1 = unnamedType s" "objs s1 ! ob = ob1"
    using len by (simp_all add: s1_def)
  show ?thesis
  proof (cases "Name ob1 = []")
    case False
    with ok len have "s' = s1\<lparr>named := AList.update (Name ob1) ob (named s1)\<rparr>"
      by (auto simp: Provide.simps Let_def s1_def ob1_def split: if_splits option.splits)
    with p1 t1 show ?thesis
      by (simp add: takenTracked_def provided_def u1)
  next
    case True
    with ok len obtain t where t: "reflectType ob1 = Some t" "isStructPtr t"
      by (auto simp: Provide.simps Let_def s1_def ob1_def split: if_splits option.splits)
    then have v: "Value ob1 \<noteq> None"
      by (auto simp: ob1_def)
    have pob: "provided (s1\<lparr>unnamed := unnamed s1 @ [ob]\<rparr>) ob"
      using t v len by (auto simp: provided_def u1 s1_def ob1_def)
    show ?thesis
    proof (cases "private' ob1")
      case True
      with ok len \<open>Name ob1 = []\<close> t have s': "s' = s1\<lparr>unnamed := unnamed s1 @ [ob]\<rparr>"
        by (auto simp: Provide.simps Let_def s1_def ob1_def split: if_splits option.splits)
      have "takenTracked s'"
        using t1 unfolding s' takenTracked_def list_all_iff list_ex_iff by (auto simp: u1)
      moreover have "\<forall>e\<in>set (unnamed s'). provided s' e"
        using p1 pob unfolding s' by (auto simp: provided_def u1)
      ultimately show ?thesis by simp
    next
      case False
      with ok len \<open>Name ob1 = []\<close> t have s': "s' = s1\<lparr>unnamedType := AList.update t True (unnamedType s1),
            unnamed := unnamed s1 @ [ob]\<rparr>"
        by (auto simp: Provide.simps Let_def s1_def ob1_def split: if_splits option.splits)
      have "takenTracked s'"
        unfolding s' takenTracked_def list_all_iff list_ex_iff
      proof (intro ballI impI)
        fix tb
        assume tb: "tb \<in> set (unnamedType (s1\<lparr>unnamedType := AList.update t True (unnamedType s1),
            unnamed := unnamed s1 @ [ob]\<rparr>))" and b: "snd tb"
        then have "tb = (t, True) \<or> tb \<in> set (unnamedType s1)"
          using set_update_subset [of t True "unnamedType s1"] by auto
        then show "\<exists>e\<in>set (unnamed (s1\<lparr>unnamedType := AList.update t True (unnamedType s1),
            unnamed := unnamed s1 @ [ob]\<rparr>)).
            \<not> private' (objs (s1\<lparr>unnamedType := AList.update t True (unnamedType s1),
            unnamed := unnamed s1 @ [ob]\<rparr>) ! e) \<and>
            reflectType (objs (s1\<lparr>unnamedType := AList.update t True (unnamedType s1),
            unnamed := unnamed s1 @ [ob]\<rparr>) ! e) = Some (fst tb)"
        proof
          assume "tb = (t, True)"
          then show ?thesis using False t u1 by auto
        next
          assume "tb \<in> set (unnamedType s1)"
          with t1 b show ?thesis
            unfolding takenTracked_def list_all_iff list_ex_iff by auto
        qed
      qed
      moreover have "\<forall>e\<in>set (unnamed s'). provided s' e"
        using p1 pob unfolding s' by (auto simp: provided_def u1)
      ultimately show ?thesis by simp
    qed
  qed
qed


lemma sNamedInt_eval:
  "sNamedInt = \<lparr>cells = [], maps = 0,
     objs = [\<lparr>Value = Some (Basic ''int'', VBasic 8080), Name = ''port'', Complete = False,
               Fields = None, reflectType = Some (Basic ''int''),
               reflectValue = Some (Basic ''int'', VBasic 8080),
               private' = False, created = False, embedded = False\<rparr>],
     unnamed = [], unnamedType = [], named = [(''port'', 0)]\<rparr>"
  by (simp add: Provide.simps sNamedInt_def emptyGraph_def newObject_def)

section \<open>The loops as sequences\<close>

lemma andThen_simps [simp]:
  "andThen None f = None"
  "andThen (Some (Nil, s)) f = f s"
  "andThen (Some (Err e, s)) f = Some (Err e, s)"
  "andThen (Some (Panic m, s)) f = Some (Panic m, s)"
  by (simp_all add: andThen_def)

lemma andThenT_simps [simp]:
  "andThenT (Nil, s) g = g s"
  "andThenT (Err e, s) g = (Err e, s)"
  "andThenT (Panic m, s) g = (Panic m, s)"
  by (simp_all add: andThenT_def)

lemma andThen_Nil_iff:
  "andThen r f = Some (Nil, s') \<longleftrightarrow> (\<exists>s1. r = Some (Nil, s1) \<and> f s1 = Some (Nil, s'))"
  by (auto simp: andThen_def split: option.splits outcome.splits)

lemma andThen_assoc: "andThen (andThen r f) h = andThen r (\<lambda>s. andThen (f s) h)"
  by (auto simp: andThen_def split: option.splits outcome.splits)

lemma andThen_return: "andThen r (\<lambda>s. Some (Nil, s)) = r"
  by (auto simp: andThen_def split: option.splits outcome.splits)

lemma andThenT_assoc: "andThenT (andThenT r f) h = andThenT r (\<lambda>s. andThenT (f s) h)"
  by (auto simp: andThenT_def split: prod.splits outcome.splits)

lemma andThenT_return: "andThenT r (\<lambda>s. (Nil, s)) = r"
  by (auto simp: andThenT_def split: prod.splits outcome.splits)

lemma andThen_Some: "andThen (Some r) (\<lambda>s. Some (g s)) = Some (andThenT r g)"
  by (auto simp: andThen_def andThenT_def split: prod.splits outcome.splits)

lemmas andThen_distrib =
  option.case_distrib [where h = "\<lambda>r. andThen r f" for f]
  prod.case_distrib [where h = "\<lambda>r. andThen r f" for f]
  outcome.case_distrib [where h = "\<lambda>r. andThen r f" for f]
  sum.case_distrib [where h = "\<lambda>r. andThen r f" for f]
  ty.case_distrib [where h = "\<lambda>r. andThen r f" for f]
  nat.case_distrib [where h = "\<lambda>r. andThen r f" for f]
  if_distrib [where f = "\<lambda>r. andThen r f" for f]

lemmas andThenT_distrib =
  option.case_distrib [where h = "\<lambda>r. andThenT r f" for f]
  prod.case_distrib [where h = "\<lambda>r. andThenT r f" for f]
  outcome.case_distrib [where h = "\<lambda>r. andThenT r f" for f]
  if_distrib [where f = "\<lambda>r. andThenT r f" for f]

text \<open>One iteration of \<open>StructLoop\<close> and then the rest.\<close>

lemma structLoop_Cons:
  "structLoop E n s ob a T i (fd # fds) =
     andThen (structLoop E n s ob a T i [fd]) (\<lambda>s1. structLoop E n s1 ob a T (i + 1) fds)"
  apply (subst structLoop.simps(2))
  apply (subst structLoop.simps(2))
  apply (simp add: structLoop.simps(1) Let_def andThen_distrib
      cong: option.case_cong prod.case_cong outcome.case_cong sum.case_cong ty.case_cong
        nat.case_cong if_cong
      split del: if_split)
  done

lemma structLoop_append:
  "structLoop E n s ob a T i (fds1 @ fds2) =
     andThen (structLoop E n s ob a T i fds1)
       (\<lambda>s1. structLoop E n s1 ob a T (i + length fds1) fds2)"
proof (induction fds1 arbitrary: s i)
  case Nil
  show ?case by (simp add: structLoop.simps(1))
next
  case (Cons fd fds1)
  have "structLoop E n s ob a T i ((fd # fds1) @ fds2) =
      andThen (structLoop E n s ob a T i [fd])
        (\<lambda>s1. structLoop E n s1 ob a T (i + 1) (fds1 @ fds2))"
    using structLoop_Cons [of E n s ob a T i fd "fds1 @ fds2"] by simp
  also have "\<dots> = andThen (structLoop E n s ob a T i [fd])
        (\<lambda>s1. andThen (structLoop E n s1 ob a T (i + 1) fds1)
                 (\<lambda>s2. structLoop E n s2 ob a T (i + length (fd # fds1)) fds2))"
    by (simp add: Cons.IH)
  also have "\<dots> = andThen (structLoop E n s ob a T i (fd # fds1))
        (\<lambda>s2. structLoop E n s2 ob a T (i + length (fd # fds1)) fds2)"
    by (subst (2) structLoop_Cons) (simp only: andThen_assoc)
  finally show ?case .
qed

lemma populateExplicit_struct:
  "structOf (objs s ! ob) = Some (sn, a) \<Longrightarrow>
   populateExplicit E n s ob = structLoop E n s ob a (Ptr (Struct sn)) 0 (structFields E sn)"
  by (subst populateExplicit.simps)
    (auto simp: Let_def split: option.splits prod.splits ty.splits val.splits)

lemma interfaceLoop_Cons:
  "interfaceLoop E s ob a T i (fd # fds) =
     andThenT (interfaceLoop E s ob a T i [fd]) (\<lambda>s1. interfaceLoop E s1 ob a T (i + 1) fds)"
  by (simp add: andThenT_distrib
      cong: option.case_cong prod.case_cong outcome.case_cong if_cong
      split del: if_split)

lemma interfaceLoop_append:
  "interfaceLoop E s ob a T i (fds1 @ fds2) =
     andThenT (interfaceLoop E s ob a T i fds1)
       (\<lambda>s1. interfaceLoop E s1 ob a T (i + length fds1) fds2)"
proof (induction fds1 arbitrary: s i)
  case Nil
  show ?case by simp
next
  case (Cons fd fds1)
  have "interfaceLoop E s ob a T i ((fd # fds1) @ fds2) =
      andThenT (interfaceLoop E s ob a T i [fd])
        (\<lambda>s1. interfaceLoop E s1 ob a T (i + 1) (fds1 @ fds2))"
    using interfaceLoop_Cons [of E s ob a T i fd "fds1 @ fds2"] by simp
  also have "\<dots> = andThenT (interfaceLoop E s ob a T i [fd])
        (\<lambda>s1. andThenT (interfaceLoop E s1 ob a T (i + 1) fds1)
                 (\<lambda>s2. interfaceLoop E s2 ob a T (i + length (fd # fds1)) fds2))"
    by (simp add: Cons.IH)
  also have "\<dots> = andThenT (interfaceLoop E s ob a T i (fd # fds1))
        (\<lambda>s2. interfaceLoop E s2 ob a T (i + length (fd # fds1)) fds2)"
    by (subst (2) interfaceLoop_Cons) (simp only: andThenT_assoc)
  finally show ?case .
qed

lemma populateUnnamedInterface_struct:
  "structOf (objs s ! ob) = Some (sn, a) \<Longrightarrow>
   populateUnnamedInterface E s ob = interfaceLoop E s ob a (Ptr (Struct sn)) 0 (structFields E sn)"
  by (auto simp: populateUnnamedInterface_def Let_def split: option.splits prod.splits ty.splits val.splits)

text \<open>The loops of \<open>Populate\<close> and of \<open>Provide\<close>.\<close>

lemma explicitAll_append:
  "explicitAll E n s (obs1 @ obs2) =
     andThen (explicitAll E n s obs1) (\<lambda>s1. explicitAll E n s1 obs2)"
proof (induction obs1 arbitrary: s)
  case Nil
  show ?case by simp
next
  case (Cons ob obs1)
  show ?case
    by (simp add: Cons.IH andThen_distrib
        cong: option.case_cong prod.case_cong outcome.case_cong if_cong
        split del: if_split)
qed

lemma explicitAll_one:
  "explicitAll E n s [ob] =
     (if Complete (objs s ! ob) then Some (Nil, s) else populateExplicit E n s ob)"
  by (simp split: option.splits outcome.splits)

lemma interfaceAll_append:
  "interfaceAll E s (obs1 @ obs2) =
     andThenT (interfaceAll E s obs1) (\<lambda>s1. interfaceAll E s1 obs2)"
proof (induction obs1 arbitrary: s)
  case Nil
  show ?case by simp
next
  case (Cons ob obs1)
  show ?case
    by (simp add: Cons.IH andThenT_distrib
        cong: option.case_cong prod.case_cong outcome.case_cong if_cong
        split del: if_split)
qed

lemma interfaceAll_one:
  "interfaceAll E s [ob] =
     (if Complete (objs s ! ob) then (Nil, s) else populateUnnamedInterface E s ob)"
  by (simp split: prod.splits outcome.splits)

lemma explicitFrom_step:
  "i < length (unnamed s) \<Longrightarrow>
   explicitFrom E n (Suc k) s i =
     andThen (if Complete (objs s ! (unnamed s ! i)) then Some (Nil, s)
              else populateExplicit E n s (unnamed s ! i))
       (\<lambda>s'. explicitFrom E n k s' (i + 1))"
  by (subst explicitFrom.simps)
    (simp add: Let_def andThen_def split: option.splits outcome.splits)

lemma explicitFrom_iter:
  "explicitIter E n j s i = Some (Nil, s0) \<Longrightarrow>
   explicitFrom E n (j + k) s i = explicitFrom E n k s0 (i + j)"
proof (induction j arbitrary: s i)
  case 0
  then show ?case by simp
next
  case (Suc j)
  from Suc.prems have i: "i < length (unnamed s)"
    by (simp split: if_splits)
  with Suc.prems obtain s' where
    s': "(if Complete (objs s ! (unnamed s ! i)) then Some (Nil, s)
          else populateExplicit E n s (unnamed s ! i)) = Some (Nil, s')"
    and r: "explicitIter E n j s' (i + 1) = Some (Nil, s0)"
    by (auto simp: andThen_Nil_iff)
  have "explicitFrom E n (Suc j + k) s i = explicitFrom E n (j + k) s' (i + 1)"
    using explicitFrom_step [OF i, of E n "j + k"] s' by simp
  also have "\<dots> = explicitFrom E n k s0 (i + 1 + j)"
    by (rule Suc.IH [OF r])
  finally show ?case by simp
qed

lemma Populate_seq:
  "Populate E n ord1 ord4 g =
     andThen (explicitAll E n g (namedObjects g ord1))
       (\<lambda>s1. andThen (explicitFrom E n n s1 0) (\<lambda>s2. Some (capabilityPasses E ord4 s2)))"
  by (auto simp: Populate_def andThen_def andThenT_def capabilityPasses_def
      split: option.splits outcome.splits prod.splits)

lemma Populate_at_object:
  assumes p1: "explicitAll E n g (namedObjects g ord1) = Some (Nil, s1)"
    and p2: "explicitIter E n j s1 0 = Some (Nil, s0)"
    and j: "j < n" "j < length (unnamed s0)"
    and c: "\<not> Complete (objs s0 ! (unnamed s0 ! j))"
  shows "Populate E n ord1 ord4 g =
     andThen (populateExplicit E n s0 (unnamed s0 ! j)) (afterObject E n ord4 j)"
proof -
  from j have n: "n = j + Suc (n - Suc j)" by simp
  have "explicitFrom E n n s1 0 = explicitFrom E n (Suc (n - Suc j)) s0 j"
    using explicitFrom_iter [OF p2, of "Suc (n - Suc j)"] n by simp
  also have "\<dots> = andThen (populateExplicit E n s0 (unnamed s0 ! j))
      (\<lambda>s'. explicitFrom E n (n - Suc j) s' (Suc j))"
    using explicitFrom_step [OF j(2), of E n "n - Suc j"] c by simp
  finally show ?thesis
    unfolding Populate_seq p1 afterObject_def
    by (simp add: andThen_assoc)
qed

lemma populateExplicit_at_field:
  assumes "structOf (objs s0 ! ob) = Some (sn, a)"
    and "structFields E sn = fds1 @ fd # fds2"
    and "structLoop E n s0 ob a (Ptr (Struct sn)) 0 fds1 = Some (Nil, s)"
  shows "populateExplicit E n s0 ob =
     andThen (structLoop E n s ob a (Ptr (Struct sn)) (length fds1) [fd])
       (\<lambda>s'. structLoop E n s' ob a (Ptr (Struct sn)) (Suc (length fds1)) fds2)"
  using assms structLoop_Cons [of E n s ob a "Ptr (Struct sn)" "length fds1" fd fds2]
  by (simp add: populateExplicit_struct structLoop_append)

lemma Provide_append:
  "Provide s (obs1 @ obs2) = andThenT (Provide s obs1) (\<lambda>s1. Provide s1 obs2)"
proof (induction obs1 arbitrary: s)
  case Nil
  show ?case by (simp add: Provide.simps)
next
  case (Cons ob obs1)
  show ?case
    apply (simp only: append_Cons)
    apply (subst Provide.simps(2))
    apply (subst Provide.simps(2))
    apply (simp add: Cons.IH Let_def andThenT_distrib
        cong: option.case_cong if_cong split del: if_split)
    done
qed

lemma assignLoop_graph:
  "named (fst (snd (assignLoop E s ob a T i fd found es))) = named s
   \<and> unnamed (fst (snd (assignLoop E s ob a T i fd found es))) = unnamed s"
proof (induction es arbitrary: s found)
  case Nil
  show ?case by simp
next
  case (Cons e es)
  show ?case
    by (simp add: Cons.IH split: option.split)
qed

lemma interfaceLoop_graph:
  "named (snd (interfaceLoop E s ob a T i fds)) = named s
   \<and> unnamed (snd (interfaceLoop E s ob a T i fds)) = unnamed s"
proof (induction fds arbitrary: s i)
  case Nil
  show ?case by simp
next
  case (Cons fd fds)
  have al: "named s' = named s \<and> unnamed s' = unnamed s"
    if "assignLoop E s ob a T i fd None (unnamed s) = (r, s', f)" for r s' f
    using assignLoop_graph [of E s ob a T i fd None "unnamed s"] that by simp
  show ?case
    by (auto simp: Cons.IH dest!: al split: option.split prod.split outcome.split)
qed

lemma populateUnnamedInterface_graph:
  "named (snd (populateUnnamedInterface E s ob)) = named s
   \<and> unnamed (snd (populateUnnamedInterface E s ob)) = unnamed s"
  by (simp add: populateUnnamedInterface_def Let_def interfaceLoop_graph
      split: option.split prod.split del: structOf.simps)

lemma interfaceAll_graph:
  "named (snd (interfaceAll E s obs)) = named s
   \<and> unnamed (snd (interfaceAll E s obs)) = unnamed s"
proof (induction obs arbitrary: s)
  case Nil
  show ?case by simp
next
  case (Cons ob obs)
  have p: "named s' = named s \<and> unnamed s' = unnamed s"
    if "populateUnnamedInterface E s ob = (r, s')" for r s'
    using populateUnnamedInterface_graph [of E s ob] that by simp
  show ?case
    by (auto simp: Cons.IH dest!: p split: prod.split outcome.split)
qed

lemma capabilityPasses_one_loop:
  "capabilityPasses E ord4 s = interfaceAll E s (unnamed s @ namedObjects s ord4)"
proof -
  have "namedObjects s3 ord4 = namedObjects s ord4" if "interfaceAll E s (unnamed s) = (r, s3)" for r s3
    using interfaceAll_graph [of E s "unnamed s"] that by (simp add: namedObjects_def)
  then show ?thesis
    by (auto simp: capabilityPasses_def interfaceAll_append andThenT_def split: prod.splits outcome.splits)
qed

lemma Populate_at_capability:
  assumes p1: "explicitAll E n g (namedObjects g ord1) = Some (Nil, s1)"
    and p2: "explicitFrom E n n s1 0 = Some (Nil, s2)"
    and obs: "unnamed s2 @ namedObjects s2 ord4 = obs1 @ ob # obs2"
    and before: "interfaceAll E s2 obs1 = (Nil, s3)"
    and c: "\<not> Complete (objs s3 ! ob)"
    and st: "structOf (objs s3 ! ob) = Some (sn, a)"
    and fds: "structFields E sn = fds1 @ fd # fds2"
    and pre: "interfaceLoop E s3 ob a (Ptr (Struct sn)) 0 fds1 = (Nil, s)"
  shows "Populate E n ord1 ord4 g =
     Some (andThenT (interfaceLoop E s ob a (Ptr (Struct sn)) (length fds1) [fd])
             (\<lambda>s'. andThenT (interfaceLoop E s' ob a (Ptr (Struct sn)) (Suc (length fds1)) fds2)
                      (\<lambda>s'. interfaceAll E s' obs2)))"
proof -
  have "populateUnnamedInterface E s3 ob =
      andThenT (interfaceLoop E s ob a (Ptr (Struct sn)) (length fds1) [fd])
        (\<lambda>s'. interfaceLoop E s' ob a (Ptr (Struct sn)) (Suc (length fds1)) fds2)"
    using interfaceLoop_Cons [of E s ob a "Ptr (Struct sn)" "length fds1" fd fds2]
    by (simp add: populateUnnamedInterface_struct [OF st] fds interfaceLoop_append pre
        del: interfaceLoop.simps)
  moreover have "interfaceAll E s3 (ob # obs2) =
      andThenT (populateUnnamedInterface E s3 ob) (\<lambda>s'. interfaceAll E s' obs2)"
    using interfaceAll_append [of E s3 "[ob]" obs2] c
    by (simp add: interfaceAll_one del: interfaceAll.simps)
  ultimately have "interfaceAll E s2 (obs1 @ ob # obs2) =
      andThenT (interfaceLoop E s ob a (Ptr (Struct sn)) (length fds1) [fd])
             (\<lambda>s'. andThenT (interfaceLoop E s' ob a (Ptr (Struct sn)) (Suc (length fds1)) fds2)
                      (\<lambda>s'. interfaceAll E s' obs2))"
    by (simp add: interfaceAll_append [of E s2 obs1] before andThenT_assoc del: interfaceAll.simps)
  then show ?thesis
    by (simp add: Populate_seq p1 p2 capabilityPasses_one_loop obs)
qed

lemma sCap0_eval:
  "sCap0 = \<lparr>cells = [VStruct [VIface None]], maps = 0,
     objs = [\<lparr>Value = Some (Ptr (Struct ''User''), VPtr (Some (0, []))), Name = [], Complete = False,
               Fields = None, reflectType = Some (Ptr (Struct ''User'')),
               reflectValue = Some (Ptr (Struct ''User''), VPtr (Some (0, []))),
               private' = False, created = False, embedded = False\<rparr>],
     unnamed = [0],
     unnamedType = [(Ptr (Struct ''User''), True)],
     named = []\<rparr>"
  by (simp add: Provide.simps sCap0_def emptyGraph_def newObject_def typeTaken_def)


section \<open>What the explicit pass leaves in place\<close>

lemma valAt_valUpd_diverge: "diverge p q \<Longrightarrow> valAt (valUpd v p w) q = valAt v q"
proof (induction v p w arbitrary: q rule: valUpd.induct)
  case (2 vs i p w)
  then obtain j q' where q: "q = j # q'" by (cases q) auto
  show ?case
  proof (cases "i < length vs")
    case True
    with 2 q show ?thesis by (auto simp: nth_list_update)
  next
    case False
    then show ?thesis by (simp add: list_update_beyond)
  qed
qed auto

lemma zero_no_pointer: "isNilOrZero z \<Longrightarrow> valAt z q \<noteq> Some (VPtr (Some x))"
proof (induction z q rule: valAt.induct)
  case (2 vs i p)
  then show ?case by (auto simp: list_all_length)
qed auto

lemma zero_diverges:
  "valAt v T = Some z \<Longrightarrow> isNilOrZero z \<Longrightarrow> valAt v A = Some (VPtr (Some x)) \<Longrightarrow> diverge T A"
proof (induction v T arbitrary: A rule: valAt.induct)
  case (1 v)
  then show ?case using zero_no_pointer [of v A x] by simp
next
  case (2 vs i p)
  show ?case
  proof (cases A)
    case Nil
    with 2 show ?thesis by simp
  next
    case (Cons j A')
    with 2 show ?thesis by (auto split: if_splits)
  qed
qed auto

lemma keeps_refl [simp]: "keepsPointers s s"
  by (simp add: keepsPointers_def)

lemma keeps_trans: "keepsPointers s s1 \<Longrightarrow> keepsPointers s1 s2 \<Longrightarrow> keepsPointers s s2"
  by (simp add: keepsPointers_def)

lemma keeps_cong: "cells s' = cells s'' \<Longrightarrow> keepsPointers s s' = keepsPointers s s''"
  by (simp add: keepsPointers_def load_def)

lemma keeps_cells: "cells s' = cells s \<Longrightarrow> keepsPointers s s'"
  by (simp add: keepsPointers_def load_def)

lemma keeps_append: "cells s' = cells s @ [z] \<Longrightarrow> keepsPointers s s'"
  by (auto simp: keepsPointers_def load_def nth_append split: if_splits)

lemma store_keeps:
  assumes z: "zeroAt s T" and k3: "keepsPointers s s3"
  shows "keepsPointers s (storeAt s3 T w)"
  unfolding keepsPointers_def
proof (intro allI impI)
  fix A p
  assume a: "load s A = Some (VPtr (Some p))"
  from a k3 have a3: "load s3 A = Some (VPtr (Some p))" unfolding keepsPointers_def by blast
  from z obtain z' where z': "load s T = Some z'" "isNilOrZero z'"
    by (auto simp: zeroAt_def split: option.splits)
  show "load (storeAt s3 T w) A = Some (VPtr (Some p))"
  proof (cases "fst A = fst T")
    case False
    with a3 show ?thesis
      by (auto simp: load_def storeAt_def split: if_splits)
  next
    case True
    from a z' True have "diverge (snd T) (snd A)"
      by (auto simp: load_def split: if_splits intro: zero_diverges)
    with a3 True show ?thesis
      by (auto simp: load_def storeAt_def valAt_valUpd_diverge split: if_splits)
  qed
qed

lemma store_keeps_iff:
  assumes z: "zeroAt s T"
  shows "keepsPointers s (storeAt s3 T w) = keepsPointers s s3"
proof -
  from z obtain z' where z': "load s T = Some z'" "isNilOrZero z'"
    by (auto simp: zeroAt_def split: option.splits)
  have same: "load (storeAt s3 T w) A = load s3 A" if a: "load s A = Some (VPtr (Some p))" for A p
  proof (cases "fst A = fst T")
    case False
    then show ?thesis
      by (auto simp: load_def storeAt_def)
  next
    case True
    from a z' True have "diverge (snd T) (snd A)"
      by (auto simp: load_def split: if_splits intro: zero_diverges)
    with True show ?thesis
      by (auto simp: load_def storeAt_def valAt_valUpd_diverge)
  qed
  show ?thesis
    unfolding keepsPointers_def using same by auto
qed

lemma keeps_assign_iff:
  "zeroAt s T \<Longrightarrow> keepsPointers s (addDep (storeAt s3 T w) ob f d) = keepsPointers s s3"
  using store_keeps_iff [of s T s3 w] keeps_cong [of "addDep (storeAt s3 T w) ob f d" "storeAt s3 T w" s]
  by simp

lemma keeps_map:
  "zeroAt s T \<Longrightarrow> keepsPointers s ((storeAt s T w)\<lparr>maps := k\<rparr>)"
  using store_keeps_iff [of s T s w] keeps_cong [of "(storeAt s T w)\<lparr>maps := k\<rparr>" "storeAt s T w" s]
  by simp

lemma cells_Provide1: "cells (snd (Provide s [ob])) = cells s"
  by (auto simp: Provide.simps Let_def split: if_splits option.splits)

lemma keeps_Provide1: "keepsPointers s (snd (Provide s1 [e])) = keepsPointers s s1"
  by (rule keeps_cong) (rule cells_Provide1)

lemma keeps_alloc:
  "keepsPointers s (s\<lparr>objs := X\<rparr>)"
  "keepsPointers s (s\<lparr>cells := cells s @ [z], objs := X\<rparr>)"
  by (simp_all add: keeps_cells keeps_append)

lemma Provide_case:
  "(case Provide s1 [e] of (x, s2) \<Rightarrow> F x s2) = F (fst (Provide s1 [e])) (snd (Provide s1 [e]))"
  by (simp add: split_beta)

lemma keptBy_simps [simp]:
  "keptBy s None"
  "keptBy s (Some (x, s')) = keepsPointers s s'"
  by (simp_all add: keptBy_def)

lemmas keptBy_distrib =
  option.case_distrib [where h = "keptBy s" for s]
  prod.case_distrib [where h = "keptBy s" for s]
  outcome.case_distrib [where h = "keptBy s" for s]
  sum.case_distrib [where h = "keptBy s" for s]
  ty.case_distrib [where h = "keptBy s" for s]
  nat.case_distrib [where h = "keptBy s" for s]
  if_distrib [where f = "keptBy s" for s]

lemma case_const:
  "(case (o1 :: 'a option) of None \<Rightarrow> c | Some x \<Rightarrow> c) = c"
  "(case (r :: outcome) of Nil \<Rightarrow> c | Err e \<Rightarrow> c | Panic m \<Rightarrow> c) = c"
  "(case (u :: 'b + 'c) of Inl x \<Rightarrow> c | Inr y \<Rightarrow> c) = c"
  "(case (t :: ty) of Struct n \<Rightarrow> c | Ptr t' \<Rightarrow> c | Interface ms \<Rightarrow> c | MapT k v \<Rightarrow> c | Basic b \<Rightarrow> c) = c"
  "(case (n :: nat) of 0 \<Rightarrow> c | Suc m \<Rightarrow> c) = c"
  by (simp_all split: option.split outcome.split sum.split ty.split nat.split)

lemma if_neg: "(if \<not> c then x else y) = (if c then y else x)"
  by simp

lemma step_keeps:
  assumes PE: "\<And>m s ob. n = Suc m \<Longrightarrow> keptBy s (populateExplicit E m s ob)"
  shows "keptBy s (structLoop E n s ob a T i [fd])"
proof -
  have rec: "(case populateExplicit E m s2 e of None \<Rightarrow> True | Some (x, s') \<Rightarrow> keepsPointers s0 s') = True"
    if "n = Suc m" "keepsPointers s0 s2" for m s2 e s0
    using PE [OF that(1), where s = s2 and ob = e] that(2)
    by (auto simp: keptBy_def split: option.splits intro: keeps_trans)
  show ?thesis
    apply (subst structLoop.simps(2))
    apply (simp add: structLoop.simps(1) Let_def keptBy_distrib allocObject_def zeroAt_def if_neg
        case_const Provide_case keeps_Provide1 keeps_alloc keeps_assign_iff keeps_map rec
      cong: option.case_cong prod.case_cong outcome.case_cong sum.case_cong ty.case_cong
        nat.case_cong if_cong
      split del: if_split)
    done
qed

lemma keptBy_andThen:
  "keptBy s r \<Longrightarrow> (\<And>s1. r = Some (Nil, s1) \<Longrightarrow> keptBy s1 (f s1)) \<Longrightarrow> keptBy s (andThen r f)"
  by (auto simp: keptBy_def andThen_def split: option.splits outcome.splits intro: keeps_trans)

lemma structLoop_keeps:
  assumes PE: "\<And>m s ob. n = Suc m \<Longrightarrow> keptBy s (populateExplicit E m s ob)"
  shows "keptBy s (structLoop E n s ob a T i fds)"
proof (induction fds arbitrary: s i)
  case Nil
  show ?case by (simp add: structLoop.simps)
next
  case (Cons fd fds)
  have "keptBy s (andThen (structLoop E n s ob a T i [fd]) (\<lambda>s1. structLoop E n s1 ob a T (i + 1) fds))"
  proof (rule keptBy_andThen)
    show "keptBy s (structLoop E n s ob a T i [fd])"
      by (rule step_keeps) (rule PE)
  next
    fix s1
    show "keptBy s1 (structLoop E n s1 ob a T (i + 1) fds)"
      by (rule Cons.IH)
  qed
  then show ?case
    by (subst structLoop_Cons)
qed

lemma populateExplicit_keeps: "keptBy s (populateExplicit E n s ob)"
proof (induction n arbitrary: s ob)
  case 0
  have "keptBy s (structLoop E 0 s ob a T i fds)" for a T i fds
    by (rule structLoop_keeps) simp
  then show ?case
    by (subst populateExplicit.simps) (simp add: Let_def split: option.split prod.split del: structOf.simps)
next
  case (Suc n)
  have "keptBy s (structLoop E (Suc n) s ob a T i fds)" for a T i fds
    by (rule structLoop_keeps) (auto simp: Suc.IH)
  then show ?case
    by (subst populateExplicit.simps) (simp add: Let_def split: option.split prod.split del: structOf.simps)
qed

text \<open>\<open>populateExplicit\<close> never overwrites a non-nil pointer.\<close>

lemma populateExplicit_keeps_pointer:
  "populateExplicit E n s ob = Some (r, s') \<Longrightarrow> load s A = Some (VPtr (Some p)) \<Longrightarrow>
   load s' A = Some (VPtr (Some p))"
proof -
  assume r: "populateExplicit E n s ob = Some (r, s')" and l: "load s A = Some (VPtr (Some p))"
  from r have "keepsPointers s s'"
    using populateExplicit_keeps [of s E n ob] by simp
  with l show ?thesis
    unfolding keepsPointers_def by blast
qed

section \<open>Auxiliary facts about the scanning loops\<close>

lemma skipSpaces_over:
  "skipSpaces (pre @ replicate k space @ r) (length pre) =
   skipSpaces (pre @ replicate k space @ r) (length pre + k)"
proof (induction k arbitrary: pre)
  case 0
  then show ?case by simp
next
  case (Suc k)
  have "skipSpaces (pre @ replicate (Suc k) space @ r) (length pre)
      = skipSpaces (pre @ replicate (Suc k) space @ r) (length pre + 1)"
    by (subst skipSpaces.simps) (simp add: nth_append)
  also have "\<dots> = skipSpaces ((pre @ [space]) @ replicate k space @ r) (length (pre @ [space]))"
    by simp
  also have "\<dots> = skipSpaces ((pre @ [space]) @ replicate k space @ r) (length (pre @ [space]) + k)"
    by (rule Suc.IH)
  finally show ?case by simp
qed

lemma skipSpaces_stop:
  "r = [] \<or> hd r \<noteq> space \<Longrightarrow> skipSpaces (pre @ r) (length pre) = length pre"
  by (subst skipSpaces.simps) (cases r; simp add: nth_append)

lemma skipSpaces_replicate:
  "r = [] \<or> hd r \<noteq> space \<Longrightarrow> skipSpaces (replicate k space @ r) 0 = k"
  using skipSpaces_over [of "[]" k r] skipSpaces_stop [of r "replicate k space"]
  by simp

lemma scanName_over:
  "list_all keyChar nm \<Longrightarrow>
   scanName (pre @ nm @ r) (length pre) = scanName (pre @ nm @ r) (length pre + length nm)"
proof (induction nm arbitrary: pre)
  case Nil
  then show ?case by simp
next
  case (Cons c nm)
  then have c: "c \<noteq> space" "c \<noteq> colon" "c \<noteq> dquote"
    by (simp_all add: keyChar_def)
  from Cons.prems have nm: "list_all keyChar nm"
    by simp
  have "scanName (pre @ (c # nm) @ r) (length pre) = scanName (pre @ (c # nm) @ r) (length pre + 1)"
    using c by (subst scanName.simps) (simp add: nth_append)
  also have "\<dots> = scanName ((pre @ [c]) @ nm @ r) (length (pre @ [c]))"
    by simp
  also have "\<dots> = scanName ((pre @ [c]) @ nm @ r) (length (pre @ [c]) + length nm)"
    by (rule Cons.IH [OF nm])
  finally show ?case by simp
qed

lemma scanName_stop:
  "r = [] \<or> \<not> keyChar (hd r) \<Longrightarrow> scanName (pre @ r) (length pre) = length pre"
  by (subst scanName.simps) (cases r; auto simp add: nth_append keyChar_def)

lemma scanName_key:
  "list_all keyChar nm \<Longrightarrow> r = [] \<or> \<not> keyChar (hd r) \<Longrightarrow> scanName (nm @ r) 0 = length nm"
  using scanName_over [of nm "[]" r] scanName_stop [of r nm]
  by simp

lemma scanValue_over:
  "list_all wfItem its \<Longrightarrow>
   scanValue (pre @ concat (map renderItem its) @ r) (length pre) =
   scanValue (pre @ concat (map renderItem its) @ r) (length pre + length (concat (map renderItem its)))"
proof (induction its arbitrary: pre)
  case Nil
  then show ?case by simp
next
  case (Cons it its)
  then have its: "list_all wfItem its" by simp
  show ?case
  proof (cases it)
    case (Plain c)
    with Cons.prems have c: "c \<noteq> dquote" "c \<noteq> backslash" by simp_all
    have "scanValue (pre @ concat (map renderItem (it # its)) @ r) (length pre)
        = scanValue (pre @ concat (map renderItem (it # its)) @ r) (length pre + 1)"
      using c Plain by (subst scanValue.simps) (simp add: nth_append)
    also have "\<dots> = scanValue ((pre @ [c]) @ concat (map renderItem its) @ r) (length (pre @ [c]))"
      using Plain by simp
    also have "\<dots> = scanValue ((pre @ [c]) @ concat (map renderItem its) @ r)
        (length (pre @ [c]) + length (concat (map renderItem its)))"
      by (rule Cons.IH [OF its])
    finally show ?thesis using Plain by simp
  next
    case (Escaped c)
    have "scanValue (pre @ concat (map renderItem (it # its)) @ r) (length pre)
        = scanValue (pre @ concat (map renderItem (it # its)) @ r) (length pre + 2)"
      using Escaped by (subst scanValue.simps) (simp add: nth_append)
    also have "\<dots> = scanValue ((pre @ [backslash, c]) @ concat (map renderItem its) @ r)
        (length (pre @ [backslash, c]))"
      using Escaped by simp
    also have "\<dots> = scanValue ((pre @ [backslash, c]) @ concat (map renderItem its) @ r)
        (length (pre @ [backslash, c]) + length (concat (map renderItem its)))"
      by (rule Cons.IH [OF its])
    finally show ?thesis using Escaped by simp
  qed
qed

lemma scanValue_closed:
  "list_all wfItem its \<Longrightarrow>
   scanValue (quoted its @ rest) 1 = 1 + length (concat (map renderItem its))"
proof -
  assume wf: "list_all wfItem its"
  let ?b = "concat (map renderItem its)"
  have "scanValue ([dquote] @ ?b @ dquote # rest) (length [dquote])
      = scanValue ([dquote] @ ?b @ dquote # rest) (length [dquote] + length ?b)"
    by (rule scanValue_over [OF wf])
  also have "\<dots> = 1 + length ?b"
    by (subst scanValue.simps) (simp add: nth_append)
  finally show ?thesis by (simp add: quoted_def)
qed

lemma Extract_pair:
  assumes wf: "wfPair (k, nm, its)"
  shows "Extract unq name (renderPair (k, nm, its) @ rest) =
     (if nm = name
      then (case unq (quoted its) of
              None \<Rightarrow> (False, [], Some ErrSyntax)
            | Some v \<Rightarrow> (True, v, None))
      else Extract unq name rest)"
proof -
  from wf have nm: "list_all keyChar nm" and its: "list_all wfItem its"
    by simp_all
  define b where "b = concat (map renderItem its)"
  define t2 where "t2 = dquote # b @ dquote # rest"
  define t1 where "t1 = nm @ colon # t2"
  define tag where "tag = replicate k space @ t1"
  have tag: "renderPair (k, nm, its) @ rest = tag"
    by (simp add: tag_def t1_def t2_def b_def quoted_def)
  have hd1: "t1 = [] \<or> hd t1 \<noteq> space"
    using nm by (cases nm) (simp_all add: keyChar_def t1_def)
  have sk: "skipSpaces tag 0 = k"
    unfolding tag_def by (rule skipSpaces_replicate [OF hd1])
  have d1: "drop k tag = t1"
    by (simp add: tag_def)
  have sn: "scanName t1 0 = length nm"
    unfolding t1_def using scanName_key [OF nm, of "colon # t2"] by (simp add: keyChar_def)
  have sv: "scanValue t2 1 = 1 + length b"
    using scanValue_closed [OF its, of rest] by (simp add: t2_def b_def quoted_def)
  have ne: "tag \<noteq> []" "t1 \<noteq> []"
    by (simp_all add: tag_def t1_def)
  have c1: "\<not> (length nm + 1 \<ge> length t1 \<or> t1 ! length nm \<noteq> colon \<or> t1 ! (length nm + 1) \<noteq> dquote)"
    by (simp add: t1_def t2_def nth_append)
  have fn: "take (length nm) t1 = nm"
    by (simp add: t1_def)
  have d2: "drop (length nm + 1) t1 = t2"
    by (simp add: t1_def)
  have c2: "\<not> (1 + length b \<ge> length t2)"
    by (simp add: t2_def)
  have qv: "take (1 + length b + 1) t2 = quoted its"
    by (simp add: t2_def quoted_def b_def)
  have d3: "drop (1 + length b + 1) t2 = rest"
    by (simp add: t2_def)
  have "Extract unq name tag =
     (if nm = name
      then (case unq (quoted its) of
              None \<Rightarrow> (False, [], Some ErrSyntax)
            | Some v \<Rightarrow> (True, v, None))
      else Extract unq name rest)"
    apply (subst Extract.simps)
    apply (simp only: sk d1 sn Let_def ne c1 fn d2 sv c2 qv d3 if_False)
    done
  then show ?thesis by (simp only: tag)
qed


lemma Extract_pairs:
  "list_all wfPair ps \<Longrightarrow> name \<notin> set (keys ps) \<Longrightarrow>
   Extract unq name (renderPairs ps @ rest) = Extract unq name rest"
proof (induction ps)
  case Nil
  then show ?case by (simp add: renderPairs_def)
next
  case (Cons p ps)
  obtain k nm its where p: "p = (k, nm, its)"
    by (cases p) auto
  from Cons.prems p have wf: "wfPair (k, nm, its)" and ne: "nm \<noteq> name"
      and rest: "list_all wfPair ps" "name \<notin> set (keys ps)"
    by (auto simp: keys_def)
  have "Extract unq name (renderPairs (p # ps) @ rest)
      = Extract unq name (renderPair (k, nm, its) @ (renderPairs ps @ rest))"
    by (simp add: renderPairs_def p)
  also have "\<dots> = Extract unq name (renderPairs ps @ rest)"
    using ne by (simp only: Extract_pair [OF wf] if_False)
  also have "\<dots> = Extract unq name rest"
    by (rule Cons.IH [OF rest])
  finally show ?case .
qed

lemma Extract_spaces: "Extract unq name (replicate k space) = (False, [], None)"
proof -
  have "skipSpaces (replicate k space) 0 = k"
    using skipSpaces_replicate [of "[]" k] by simp
  then show ?thesis
    by (subst Extract.simps) (simp add: Let_def)
qed

text \<open>The first test of the loop body on a text whose key part is \<open>nm\<close>.\<close>

lemma Extract_bad_head:
  assumes nm: "list_all keyChar nm"
    and r: "r = [] \<or> \<not> keyChar (hd r)"
    and ne: "nm @ r \<noteq> []" "hd (nm @ r) \<noteq> space"
    and bad: "length r < 2 \<or> r ! 0 \<noteq> colon \<or> r ! 1 \<noteq> dquote"
  shows "Extract unq name (replicate k space @ nm @ r) = (False, [], Some errInvalidTag)"
proof -
  define t1 where "t1 = nm @ r"
  define tag where "tag = replicate k space @ t1"
  have sk: "skipSpaces tag 0 = k"
    unfolding tag_def using ne by (intro skipSpaces_replicate) (simp add: t1_def)
  have d1: "drop k tag = t1"
    by (simp add: tag_def)
  have sn: "scanName t1 0 = length nm"
    unfolding t1_def by (rule scanName_key [OF nm r])
  have n: "tag \<noteq> []" "t1 \<noteq> []"
    using ne by (simp_all add: tag_def t1_def)
  have c1: "length nm + 1 \<ge> length t1 \<or> t1 ! length nm \<noteq> colon \<or> t1 ! (length nm + 1) \<noteq> dquote"
    using bad by (auto simp: t1_def nth_append)
  have "Extract unq name tag = (False, [], Some errInvalidTag)"
    apply (subst Extract.simps)
    apply (simp only: sk d1 sn Let_def n c1 if_False if_True)
    done
  then show ?thesis by (simp only: tag_def t1_def)
qed

lemma Extract_unterminated:
  assumes nm: "list_all keyChar nm" and its: "list_all wfItem its"
    and tl: "e = [] \<or> e = [backslash]"
  shows "Extract unq name (replicate k space @ nm @ colon # dquote # concat (map renderItem its) @ e)
           = (False, [], Some errInvalidTag)"
proof -
  define b where "b = concat (map renderItem its)"
  define t2 where "t2 = dquote # b @ e"
  define t1 where "t1 = nm @ colon # t2"
  define tag where "tag = replicate k space @ t1"
  have hd1: "t1 = [] \<or> hd t1 \<noteq> space"
    using nm by (cases nm) (simp_all add: keyChar_def t1_def)
  have sk: "skipSpaces tag 0 = k"
    unfolding tag_def by (rule skipSpaces_replicate [OF hd1])
  have d1: "drop k tag = t1"
    by (simp add: tag_def)
  have sn: "scanName t1 0 = length nm"
    unfolding t1_def using scanName_key [OF nm, of "colon # t2"] by (simp add: keyChar_def)
  have n: "tag \<noteq> []" "t1 \<noteq> []"
    by (simp_all add: tag_def t1_def)
  have c1: "\<not> (length nm + 1 \<ge> length t1 \<or> t1 ! length nm \<noteq> colon \<or> t1 ! (length nm + 1) \<noteq> dquote)"
    by (simp add: t1_def t2_def nth_append)
  have d2: "drop (length nm + 1) t1 = t2"
    by (simp add: t1_def)
  have "scanValue ([dquote] @ concat (map renderItem its) @ e) (length [dquote])
      = scanValue ([dquote] @ concat (map renderItem its) @ e) (length [dquote] + length (concat (map renderItem its)))"
    by (rule scanValue_over [OF its])
  then have sv0: "scanValue t2 1 = scanValue t2 (1 + length b)"
    by (simp add: t2_def b_def)
  have "scanValue t2 (1 + length b) \<ge> length t2"
  proof (cases "e = []")
    case True
    then show ?thesis
      by (subst scanValue.simps) (simp add: t2_def)
  next
    case False
    with tl have e: "e = [backslash]" by simp
    have "scanValue t2 (1 + length b) = scanValue t2 (1 + length b + 2)"
      by (subst scanValue.simps) (simp add: t2_def e nth_append)
    also have "\<dots> = 1 + length b + 2"
      by (subst scanValue.simps) (simp add: t2_def e)
    finally show ?thesis by (simp add: t2_def e)
  qed
  then have c2: "scanValue t2 1 \<ge> length t2"
    by (simp only: sv0)
  have "Extract unq name tag = (False, [], Some errInvalidTag)"
    apply (subst Extract.simps)
    apply (simp only: sk d1 sn Let_def n c1 d2 c2 if_False if_True)
    done
  then show ?thesis by (simp only: tag_def t1_def t2_def b_def)
qed

lemma Extract_scan_parts:
  assumes ps: "list_all wfPair ps" "name \<notin> set (keys ps)"
    and nm: "list_all keyChar nm" and its: "list_all wfItem its"
  shows "Extract unq name (renderPairs ps @ replicate k space) = (False, [], None)"
    and "list_all keyChar name \<longrightarrow>
         Extract unq name (renderPairs ps @ renderPair (k, name, its) @ rest) =
           (case unq (quoted its) of
              None \<Rightarrow> (False, [], Some ErrSyntax)
            | Some v \<Rightarrow> (True, v, None))"
    and "nm \<noteq> [] \<and> (r = [] \<or> hd r = space \<or> hd r = dquote) \<longrightarrow>
         Extract unq name (renderPairs ps @ replicate k space @ nm @ r) = (False, [], Some errInvalidTag)"
    and "Extract unq name (renderPairs ps @ replicate k space @ dquote # r) = (False, [], Some errInvalidTag)"
    and "r = [] \<or> hd r \<noteq> dquote \<longrightarrow>
         Extract unq name (renderPairs ps @ replicate k space @ nm @ colon # r) = (False, [], Some errInvalidTag)"
    and "e = [] \<or> e = [backslash] \<longrightarrow>
         Extract unq name (renderPairs ps @ replicate k space @ nm @ colon # dquote # concat (map renderItem its) @ e)
           = (False, [], Some errInvalidTag)"
proof -
  show "Extract unq name (renderPairs ps @ replicate k space) = (False, [], None)"
    by (simp only: Extract_pairs [OF ps] Extract_spaces)
  show "list_all keyChar name \<longrightarrow>
         Extract unq name (renderPairs ps @ renderPair (k, name, its) @ rest) =
           (case unq (quoted its) of
              None \<Rightarrow> (False, [], Some ErrSyntax)
            | Some v \<Rightarrow> (True, v, None))"
  proof
    assume "list_all keyChar name"
    with its have wf: "wfPair (k, name, its)" by simp
    show "Extract unq name (renderPairs ps @ renderPair (k, name, its) @ rest) =
           (case unq (quoted its) of
              None \<Rightarrow> (False, [], Some ErrSyntax)
            | Some v \<Rightarrow> (True, v, None))"
      by (simp only: Extract_pairs [OF ps] Extract_pair [OF wf] if_True simp_thms)
  qed
  show "nm \<noteq> [] \<and> (r = [] \<or> hd r = space \<or> hd r = dquote) \<longrightarrow>
         Extract unq name (renderPairs ps @ replicate k space @ nm @ r) = (False, [], Some errInvalidTag)"
  proof
    assume h: "nm \<noteq> [] \<and> (r = [] \<or> hd r = space \<or> hd r = dquote)"
    then have r: "r = [] \<or> \<not> keyChar (hd r)"
      by (auto simp: keyChar_def)
    from h nm have ne: "nm @ r \<noteq> []" "hd (nm @ r) \<noteq> space"
      by (cases nm, simp, simp add: keyChar_def)+
    from h have bad: "length r < 2 \<or> r ! 0 \<noteq> colon \<or> r ! 1 \<noteq> dquote"
      by (cases r) auto
    show "Extract unq name (renderPairs ps @ replicate k space @ nm @ r) = (False, [], Some errInvalidTag)"
      by (simp only: Extract_pairs [OF ps] Extract_bad_head [OF nm r ne bad])
  qed
  show "Extract unq name (renderPairs ps @ replicate k space @ dquote # r) = (False, [], Some errInvalidTag)"
  proof -
    have "Extract unq name (replicate k space @ [] @ dquote # r) = (False, [], Some errInvalidTag)"
      by (rule Extract_bad_head) (simp_all add: keyChar_def)
    then show ?thesis
      by (simp only: Extract_pairs [OF ps] append_Nil)
  qed
  show "r = [] \<or> hd r \<noteq> dquote \<longrightarrow>
         Extract unq name (renderPairs ps @ replicate k space @ nm @ colon # r) = (False, [], Some errInvalidTag)"
  proof
    assume h: "r = [] \<or> hd r \<noteq> dquote"
    have r: "colon # r = [] \<or> \<not> keyChar (hd (colon # r))"
      by (simp add: keyChar_def)
    from nm have ne: "nm @ colon # r \<noteq> []" "hd (nm @ colon # r) \<noteq> space"
      by (cases nm, simp, simp add: keyChar_def)+
    from h have bad: "length (colon # r) < 2 \<or> (colon # r) ! 0 \<noteq> colon \<or> (colon # r) ! 1 \<noteq> dquote"
      by (cases r) auto
    show "Extract unq name (renderPairs ps @ replicate k space @ nm @ colon # r) = (False, [], Some errInvalidTag)"
      by (simp only: Extract_pairs [OF ps] Extract_bad_head [OF nm r ne bad])
  qed
  show "e = [] \<or> e = [backslash] \<longrightarrow>
         Extract unq name (renderPairs ps @ replicate k space @ nm @ colon # dquote # concat (map renderItem its) @ e)
           = (False, [], Some errInvalidTag)"
    using Extract_unterminated [OF nm its, of e unq name k]
    by (simp only: Extract_pairs [OF ps]) blast
qed

section \<open>Extract\<close>

text \<open>
  C8 (as amended). Let the metadata start with well-formed pairs \<open>ps\<close>, none of which has
  the key \<open>name\<close>. If only spaces follow, \<open>Extract\<close> returns \<open>found = false\<close> and no
  error. If a well-formed pair with the key \<open>name\<close> follows, the result is that of
  unquoting its value: \<open>found = true\<close> with the value, or the error of
  \<open>strconv.Unquote\<close> (an invalid escape sequence); whatever comes after that pair is
  not looked at. If what follows is a key with no colon after it, a quote where a key
  should start, a colon with no opening quote after it, or a quoted value that never
  closes, the result is the invalid-tag error. The values of the pairs \<open>ps\<close> are never
  unquoted: an invalid escape sequence in them is no error.
\<close>

theorem Extract_scan:
  assumes ps: "list_all wfPair ps" "name \<notin> set (keys ps)"
    and nm: "list_all keyChar nm" and its: "list_all wfItem its"
  shows "Extract unq name (renderPairs ps @ replicate k space) = (False, [], None)
       \<and> (list_all keyChar name \<longrightarrow>
            Extract unq name (renderPairs ps @ renderPair (k, name, its) @ rest) =
              (case unq (quoted its) of
                 None \<Rightarrow> (False, [], Some ErrSyntax)
               | Some v \<Rightarrow> (True, v, None)))
       \<and> (nm \<noteq> [] \<and> (r = [] \<or> hd r = space \<or> hd r = dquote) \<longrightarrow>
            Extract unq name (renderPairs ps @ replicate k space @ nm @ r)
              = (False, [], Some errInvalidTag))
       \<and> Extract unq name (renderPairs ps @ replicate k space @ dquote # r)
              = (False, [], Some errInvalidTag)
       \<and> (r = [] \<or> hd r \<noteq> dquote \<longrightarrow>
            Extract unq name (renderPairs ps @ replicate k space @ nm @ colon # r)
              = (False, [], Some errInvalidTag))
       \<and> (e = [] \<or> e = [backslash] \<longrightarrow>
            Extract unq name
              (renderPairs ps @ replicate k space @ nm @ colon # dquote # concat (map renderItem its) @ e)
              = (False, [], Some errInvalidTag))"
  by (intro conjI) (rule Extract_scan_parts [OF ps nm its])+

text \<open>
  At \<open>json:"a"\<close> followed by a space; by \<open> inject:"" x\<close> (found, with the empty value
  of a bare directive, which differs from not found); by \<open> inject\<close>; by
  \<open> inject:"a\<close>.
\<close>

theorem Extract_scan_witness:
  "Extract unquotePlain ''inject'' (''json:'' @ [dquote, CHR ''a'', dquote] @ '' '') = (False, [], None)
   \<and> Extract unquotePlain ''inject''
        (''json:'' @ [dquote, CHR ''a'', dquote] @ '' inject:'' @ [dquote, dquote] @ '' x'') = (True, [], None)
   \<and> Extract unquotePlain ''inject''
        (''json:'' @ [dquote, CHR ''a'', dquote] @ '' inject'') = (False, [], Some errInvalidTag)
   \<and> Extract unquotePlain ''inject''
        (''json:'' @ [dquote, CHR ''a'', dquote] @ '' inject:'' @ [dquote, CHR ''a'']) = (False, [], Some errInvalidTag)"
proof -
  have ps: "list_all wfPair [(0, ''json'', [Plain (CHR ''a'')])]"
      "''inject'' \<notin> set (keys [(0, ''json'', [Plain (CHR ''a'')])])"
    by (simp_all add: keyChar_def keys_def)
  have nm: "list_all keyChar ''inject''"
    by (simp add: keyChar_def)
  have i0: "list_all wfItem []" and i1: "list_all wfItem [Plain (CHR ''a'')]"
    by simp_all
  have u: "unquotePlain [dquote, dquote] = Some []"
    by (simp add: unquotePlain_def)
  have rp: "renderPairs [(0, ''json'', [Plain (CHR ''a'')])] = ''json:'' @ [dquote, CHR ''a'', dquote]"
    by (simp add: renderPairs_def quoted_def)
  note a = Extract_scan [OF ps nm i0, of unquotePlain 1 "'' x''" "[]" "[]"]
  note b = Extract_scan [OF ps nm i1, of unquotePlain 1 "[]" "[]" "[]"]
  from a [THEN conjunct1] have 1: "Extract unquotePlain ''inject'' (renderPairs [(0, ''json'', [Plain (CHR ''a'')])] @ replicate 1 space)
        = (False, [], None)" .
  from a [THEN conjunct2, THEN conjunct1, rule_format, OF nm] have 2: "Extract unquotePlain ''inject''
        (renderPairs [(0, ''json'', [Plain (CHR ''a'')])] @ renderPair (1, ''inject'', []) @ '' x'')
        = (case unquotePlain (quoted []) of None \<Rightarrow> (False, [], Some ErrSyntax) | Some v \<Rightarrow> (True, v, None))" .
  have three: "''inject'' \<noteq> [] \<and> (([]::string) = [] \<or> hd [] = space \<or> hd [] = dquote)"
    by simp
  from a [THEN conjunct2, THEN conjunct2, THEN conjunct1, rule_format, OF three] have 3: "Extract unquotePlain ''inject''
        (renderPairs [(0, ''json'', [Plain (CHR ''a'')])] @ replicate 1 space @ ''inject'' @ [])
        = (False, [], Some errInvalidTag)" .
  have four: "([]::string) = [] \<or> [] = [backslash]"
    by simp
  from b [THEN conjunct2, THEN conjunct2, THEN conjunct2, THEN conjunct2, THEN conjunct2, rule_format, OF four]
  have 4: "Extract unquotePlain ''inject''
        (renderPairs [(0, ''json'', [Plain (CHR ''a'')])] @ replicate 1 space @ ''inject'' @ colon # dquote #
           concat (map renderItem [Plain (CHR ''a'')]) @ [])
        = (False, [], Some errInvalidTag)" .
  from 1 2 3 4 show ?thesis
    by (simp add: rp u quoted_def)
qed

text \<open>
  C8 as the claim states it fails: \<open>a:"\q"\<close> holds an escape sequence that no unquoting
  accepts, and the pair after \<open>inject:""\<close> in \<open>inject:"" x\<close> has no colon; in both
  cases \<open>Extract\<close> returns no error.
\<close>

theorem Extract_overlooks_malformed_pairs:
  "Extract (\<lambda>q. None) ''inject'' (''a:'' @ [dquote, backslash, CHR ''q'', dquote]) = (False, [], None)
   \<and> Extract unquotePlain ''inject'' (tagBare @ '' x'') = (True, [], None)"
  by code_simp

section \<open>Provide\<close>

text \<open>
  C6 (as amended). \<open>Provide\<close> rejects an object with the fields-were-specified error
  exactly when the object's \<open>Fields\<close> map is not nil, whether or not the map holds
  an entry; an object whose \<open>Fields\<close> is nil is never rejected for that reason.
\<close>

theorem Provide_rejects_present_Fields:
  assumes "ob < length (objs s)"
  shows "(fst (Provide s [ob]) = Err (FieldsSpecified ob)) = (Fields (objs s ! ob) \<noteq> None)"
  using assms by (auto simp: Provide.simps Let_def split: option.splits)

theorem Provide_rejects_present_Fields_witness:
  "0 < length (objs sTwoT) \<and> Fields (objs sTwoT ! 0) = None
     \<and> fst (Provide sTwoT [0]) \<noteq> Err (FieldsSpecified 0)"
  using Provide_rejects_present_Fields [of 0 sTwoT]
  by (simp add: Provide.simps sTwoT_def emptyGraph_def newObject_def)

text \<open>
  C6 as the claim states it fails: an object whose dependency map is empty, but made
  (\<open>map[string]*Object{}\<close>), is rejected with the fields-were-specified error.
\<close>

theorem Provide_rejects_empty_map:
  "Fields (objs sEmptyMap ! 0) = Some []
     \<and> fst (Provide sEmptyMap [0]) = Err (FieldsSpecified 0)"
  by (simp add: Provide.simps sEmptyMap_def emptyGraph_def newObject_def)

text \<open>
  C7. Two distinct unnamed objects \<open>a\<close> and \<open>b\<close> hold values of the same
  pointer-to-struct type \<open>t\<close>, and neither comes with a \<open>Fields\<close> map. If both are
  non-private, the second \<open>Provide\<close> fails with the two-unnamed-instances error (and the
  first succeeds when no object of type \<open>t\<close> was registered before). If at least one
  is private and no non-private object of type \<open>t\<close> was registered before, both calls
  succeed. The same holds when the two objects are passed to one call.
\<close>

theorem Provide_two_of_one_type:
  assumes "a < length (objs s)" "b < length (objs s)" "a \<noteq> b"
    and "Name (objs s ! a) = []" "Name (objs s ! b) = []"
    and "Fields (objs s ! a) = None" "Fields (objs s ! b) = None"
    and "Value (objs s ! a) = Some (t, va)" "Value (objs s ! b) = Some (t, vb)"
    and "isStructPtr t"
  shows "(\<not> private' (objs s ! a) \<and> \<not> private' (objs s ! b) \<longrightarrow>
            fst (Provide (snd (Provide s [a])) [b]) = Err (TwoUnnamed t)
            \<and> fst (Provide s [a, b]) = Err (TwoUnnamed t))
       \<and> (\<not> private' (objs s ! a) \<and> \<not> private' (objs s ! b) \<and> \<not> typeTaken s t \<longrightarrow>
            fst (Provide s [a]) = Nil)
       \<and> ((private' (objs s ! a) \<or> private' (objs s ! b)) \<and> \<not> typeTaken s t \<longrightarrow>
            fst (Provide s [a]) = Nil \<and> fst (Provide (snd (Provide s [a])) [b]) = Nil
            \<and> fst (Provide s [a, b]) = Nil)"
  using assms
  by (auto simp: Provide.simps Let_def typeTaken_def update_conv' map_of_eq_None_iff split: option.splits)

theorem Provide_two_of_one_type_witness:
  "fst (Provide sTwoT [0]) = Nil
     \<and> fst (Provide (snd (Provide sTwoT [0])) [1]) = Err (TwoUnnamed (Ptr (Struct ''T'')))"
  using Provide_two_of_one_type [of 0 sTwoT 1 "Ptr (Struct ''T'')" "VPtr (Some (0, []))" "VPtr (Some (1, []))"]
  by (simp add: Provide.simps sTwoT_def emptyGraph_def newObject_def typeTaken_def)

lemma Provide_private_and_public:
  "fst (Provide sTwoTPrivate [0]) = Nil \<and> fst (Provide (snd (Provide sTwoTPrivate [0])) [1]) = Nil"
  by (simp add: Provide.simps sTwoTPrivate_def emptyGraph_def newObject_def typeTaken_def)

section \<open>The field steps of the explicit pass\<close>

text \<open>Where \<open>Populate\<close> calls \<open>populateExplicit\<close>: on the named objects in its first
  loop, on the unnamed objects in its second.\<close>

lemma Populate_at_named:
  assumes l: "namedObjects g ord1 = obs1 @ ob # obs2"
    and before: "explicitAll E n g obs1 = Some (Nil, s0)"
    and c: "\<not> Complete (objs s0 ! ob)"
  shows "Populate E n ord1 ord4 g =
     andThen (populateExplicit E n s0 ob)
       (\<lambda>s'. andThen (explicitAll E n s' obs2)
          (\<lambda>s1. andThen (explicitFrom E n n s1 0) (\<lambda>s2. Some (capabilityPasses E ord4 s2))))"
proof -
  have "explicitAll E n s0 (ob # obs2) =
      andThen (populateExplicit E n s0 ob) (\<lambda>s'. explicitAll E n s' obs2)"
    using explicitAll_append [of E n s0 "[ob]" obs2] c
    by (simp add: explicitAll_one del: explicitAll.simps)
  then have "explicitAll E n g (namedObjects g ord1) =
      andThen (populateExplicit E n s0 ob) (\<lambda>s'. explicitAll E n s' obs2)"
    by (simp add: l explicitAll_append [of E n g obs1] before del: explicitAll.simps)
  then show ?thesis
    by (simp add: Populate_seq andThen_assoc)
qed

text \<open>A nil pointer field with a bare directive: an existing instance, or a new one.\<close>

lemma reuse_step:
  assumes fld: "load s (fieldAddr a i) = Some field" "isNilOrZero field"
    and tg: "parseTag (unquote E) (fieldTag fd) = (Some tg, None)"
    and bare: "tagName tg = []" "\<not> Inline tg" "canSet fd"
    and ptr: "fieldType fd = Ptr (Struct sn)"
    and prov: "\<forall>e\<in>set (unnamed s). provided s e"
    and np: "\<not> Private tg"
    and cand: "candidates E s (fieldType fd) = c # cs"
  shows "structLoop E n s ob a T i [fd] = Some (Nil, assign s ob a i fd c)"
proof -
  from cand have "c \<in> set (filter (candidate E s (fieldType fd)) (unnamed s))"
    by (simp add: candidates_def)
  then have "c \<in> set (unnamed s)" by simp
  with prov obtain d where d: "Value (objs s ! c) = Some d"
    by (auto simp: provided_def)
  show ?thesis
    using fld tg bare ptr np cand d
    by (simp add: structLoop.simps findAssignable_candidates [OF prov] candidates_def assign_def)
qed

lemma create_step:
  assumes fld: "load s (fieldAddr a i) = Some field" "isNilOrZero field"
    and tg: "parseTag (unquote E) (fieldTag fd) = (Some tg, None)"
    and bare: "tagName tg = []" "\<not> Inline tg" "canSet fd"
    and ptr: "fieldType fd = Ptr (Struct sn)"
    and prov: "\<forall>e\<in>set (unnamed s). provided s e"
    and inv: "takenTracked s"
    and none: "Private tg \<or> candidates E s (fieldType fd) = []"
    and z: "zeroVal E (Suc m) (Struct sn) = Some z"
  shows "structLoop E (Suc m) s ob a T i [fd] =
     andThen (populateExplicit E m (registerCreated s (fieldType fd) z (Private tg)) (length (objs s)))
       (\<lambda>s3. Some (Nil, addDep (storeAt s3 (fieldAddr a i) (VPtr (Some (length (cells s), []))))
                          ob (fieldName fd) (length (objs s))))"
proof -
  from none have "Private tg \<or> \<not> typeTaken s (fieldType fd)"
    using no_candidate_not_taken [OF inv] by blast
  then have ok: "Private tg \<or> \<not> typeTaken s (Ptr (Struct sn))"
    using ptr by simp
  have fa: "(if \<not> Private tg then findAssignable E s (Ptr (Struct sn)) (unnamed s) else Inr None) = Inr None"
    using none ptr by (auto simp: findAssignable_candidates [OF prov] candidates_def)
  have al: "allocObject (s\<lparr>cells := cells s @ [z]\<rparr>)
                    ((newObject (Some (Ptr (Struct sn), VPtr (Some (length (cells s), [])))))
                       \<lparr>private' := Private tg, created := True\<rparr>) =
            (length (objs s),
             s\<lparr>cells := cells s @ [z],
               objs := objs s @ [(newObject (Some (Ptr (Struct sn), VPtr (Some (length (cells s), [])))))
                       \<lparr>private' := Private tg, created := True\<rparr>]\<rparr>)"
    by (simp add: allocObject_def)
  have pr: "Provide (s\<lparr>cells := cells s @ [z],
               objs := objs s @ [(newObject (Some (Ptr (Struct sn), VPtr (Some (length (cells s), [])))))
                       \<lparr>private' := Private tg, created := True\<rparr>]\<rparr>)
            [length (objs s)] = (Nil, registerCreated s (Ptr (Struct sn)) z (Private tg))"
    using Provide_registerCreated [OF ok, of z] by (simp add: allocObject_def)
  show ?thesis
  proof (cases "Private tg")
    case True
    then have pt: "Private tg = True" by simp
    show ?thesis
      apply (subst structLoop.simps(2))
      using fld tg bare True
      apply (simp add: ptr z Let_def al [unfolded pt] pr [unfolded pt] structLoop.simps(1) andThen_def
          del: zeroVal.simps cong: option.case_cong prod.case_cong outcome.case_cong)
      done
  next
    case False
    with fa have fa': "findAssignable E s (Ptr (Struct sn)) (unnamed s) = Inr None"
      by simp
    from False have pt: "Private tg = False" by simp
    show ?thesis
      apply (subst structLoop.simps(2))
      using fld tg bare False
      apply (simp add: ptr z Let_def al [unfolded pt] pr [unfolded pt] fa' structLoop.simps(1) andThen_def
          del: zeroVal.simps cong: option.case_cong prod.case_cong outcome.case_cong)
      done
  qed
qed

lemma sOuter_eval:
  "sOuter = \<lparr>cells = [VStruct [VPtr None]], maps = 0,
     objs = [\<lparr>Value = Some (Ptr (Struct ''Outer''), VPtr (Some (0, []))), Name = [], Complete = False,
               Fields = None, reflectType = Some (Ptr (Struct ''Outer'')),
               reflectValue = Some (Ptr (Struct ''Outer''), VPtr (Some (0, []))),
               private' = False, created = False, embedded = False\<rparr>],
     unnamed = [0],
     unnamedType = [(Ptr (Struct ''Outer''), True)],
     named = []\<rparr>"
  by (simp add: Provide.simps sOuter_def emptyGraph_def newObject_def typeTaken_def)

text \<open>A non-nil pointer field whose value is not tracked: deep injection.\<close>

lemma Provide_registerExisting_taken:
  assumes "typeTaken s (Ptr (Struct sn))"
  shows "Provide (s\<lparr>objs := objs s @ [newObject (Some (Ptr (Struct sn), v))]\<rparr>) [length (objs s)]
           = (Err (TwoUnnamed (Ptr (Struct sn))), registerExisting s (Ptr (Struct sn), v))"
    and "unnamed (registerExisting s (Ptr (Struct sn), v)) = unnamed s"
    and "unnamedType (registerExisting s (Ptr (Struct sn), v)) = unnamedType s"
    and "named (registerExisting s (Ptr (Struct sn), v)) = named s"
    and "cells (registerExisting s (Ptr (Struct sn), v)) = cells s"
    and "take (length (objs s)) (objs (registerExisting s (Ptr (Struct sn), v))) = objs s"
  using assms
  by (auto simp: registerExisting_def Provide.simps allocObject_def newObject_def typeTaken_def Let_def)

lemma deep_step1:
  assumes fld: "load s (fieldAddr a i) = Some field" "\<not> isNilOrZero field"
    and tg: "parseTag (unquote E) (fieldTag fd) = (Some tg, None)"
    and dir: "\<not> Private tg" "\<not> Inline tg" "canSet fd"
    and ptr: "fieldType fd = Ptr (Struct sn)"
    and untracked: "\<not> tracked s (fieldType fd, field)"
  shows "structLoop E n s ob a T i [fd] =
     (case Provide (s\<lparr>objs := objs s @ [newObject (Some (fieldType fd, field))]\<rparr>) [length (objs s)] of
        (Nil, s2) \<Rightarrow> (case n of 0 \<Rightarrow> None | Suc m \<Rightarrow> populateExplicit E m s2 (length (objs s)))
      | (Err e, s2) \<Rightarrow> Some (Nil, s2)
      | (Panic m, s2) \<Rightarrow> Some (Panic m, s2))"
  apply (subst structLoop.simps(2))
  using fld tg dir untracked
  apply (simp add: ptr allocObject_eq structLoop.simps(1)
      split: prod.split outcome.split nat.split option.split)
  done

section \<open>The explicit pass\<close>

text \<open>
  C3 (as amended). \<open>populateExplicit\<close> runs on the object \<open>ob\<close>, whose struct has the
  fields \<open>fds1\<close>, \<open>fd\<close>, \<open>fds2\<close>, and has come through \<open>fds1\<close> (state \<open>s\<close>).
  The field \<open>fd\<close> is an exported pointer-to-struct field that is nil and carries an
  unnamed, non-inline directive; the unnamed objects all went through \<open>Provide\<close>, and
  every type marked as taken is the type of a registered non-private object, as
  \<open>Provide\<close> keeps it.

  \<^item> \<open>Populate\<close> runs \<open>populateExplicit\<close> on every named object and on every unnamed
    object that is not complete, and goes on with the rest only when that returns nil.
  \<^item> If the directive is not private and some non-private unnamed object has a type
    assignable to the field's type, the first such object's value is assigned to the
    field (the field then holds that very pointer), the edge from the field to the object
    is recorded, and the loop goes on with the next field.
  \<^item> If there is none, or the directive is private, a zero value of the pointee type is
    allocated in a new cell and registered as a new unnamed object with \<open>created\<close> true
    and \<open>private\<close> as the directive says, and \<open>populateExplicit\<close> runs on it. Only
    when that returns nil is the new pointer assigned to the field and the edge recorded,
    and the loop goes on with the next field; when it returns an error, that error is
    the result, in the state the call left, with the field not assigned and no edge
    recorded; when it does not return, nothing does.
\<close>

theorem pointer_field_reuse_or_create:
  assumes obj: "structOf (objs s0 ! ob) = Some (sn0, a)"
    and fds: "structFields E sn0 = fds1 @ fd # fds2"
    and pre: "structLoop E n s0 ob a (Ptr (Struct sn0)) 0 fds1 = Some (Nil, s)"
    and fld: "load s (fieldAddr a (length fds1)) = Some field" "isNilOrZero field"
    and tg: "parseTag (unquote E) (fieldTag fd) = (Some tg, None)"
    and bare: "tagName tg = []" "\<not> Inline tg" "canSet fd"
    and ptr: "fieldType fd = Ptr (Struct sn)"
    and prov: "\<forall>e\<in>set (unnamed s). provided s e"
    and inv: "takenTracked s"
    and obl: "ob < length (objs s)"
  shows "(\<forall>g ord1 ord4 obs1 obs2.
            namedObjects g ord1 = obs1 @ ob # obs2 \<and> explicitAll E n g obs1 = Some (Nil, s0)
            \<and> \<not> Complete (objs s0 ! ob) \<longrightarrow>
            Populate E n ord1 ord4 g =
              andThen (populateExplicit E n s0 ob)
                (\<lambda>s'. andThen (explicitAll E n s' obs2)
                   (\<lambda>s1. andThen (explicitFrom E n n s1 0) (\<lambda>s2. Some (capabilityPasses E ord4 s2)))))
       \<and> (\<forall>g ord1 ord4 s1 j.
            explicitAll E n g (namedObjects g ord1) = Some (Nil, s1)
            \<and> explicitIter E n j s1 0 = Some (Nil, s0) \<and> j < n
            \<and> j < length (unnamed s0) \<and> unnamed s0 ! j = ob \<and> \<not> Complete (objs s0 ! ob) \<longrightarrow>
            Populate E n ord1 ord4 g = andThen (populateExplicit E n s0 ob) (afterObject E n ord4 j))
       \<and> (\<forall>c cs. \<not> Private tg \<and> candidates E s (fieldType fd) = c # cs \<longrightarrow>
            populateExplicit E n s0 ob =
              structLoop E n (assign s ob a (length fds1) fd c) ob a (Ptr (Struct sn0)) (length fds1 + 1) fds2
            \<and> load (assign s ob a (length fds1) fd c) (fieldAddr a (length fds1))
                = Some (snd (the (Value (objs s ! c))))
            \<and> map_of (the (Fields (objs (assign s ob a (length fds1) fd c) ! ob))) (fieldName fd) = Some c)
       \<and> (\<forall>z m. (Private tg \<or> candidates E s (fieldType fd) = []) \<and> n = Suc m
              \<and> zeroVal E n (Struct sn) = Some z \<longrightarrow>
            isNilOrZero z
            \<and> cells (registerCreated s (fieldType fd) z (Private tg)) = cells s @ [z]
            \<and> unnamed (registerCreated s (fieldType fd) z (Private tg)) = unnamed s @ [length (objs s)]
            \<and> created (objs (registerCreated s (fieldType fd) z (Private tg)) ! length (objs s))
            \<and> private' (objs (registerCreated s (fieldType fd) z (Private tg)) ! length (objs s)) = Private tg
            \<and> Value (objs (registerCreated s (fieldType fd) z (Private tg)) ! length (objs s))
                = Some (fieldType fd, VPtr (Some (length (cells s), [])))
            \<and> populateExplicit E n s0 ob =
                andThen (populateExplicit E m (registerCreated s (fieldType fd) z (Private tg)) (length (objs s)))
                  (\<lambda>s3. structLoop E n
                           (addDep (storeAt s3 (fieldAddr a (length fds1)) (VPtr (Some (length (cells s), []))))
                              ob (fieldName fd) (length (objs s)))
                           ob a (Ptr (Struct sn0)) (length fds1 + 1) fds2))"
proof (intro conjI allI impI)
  note at = populateExplicit_at_field [OF obj fds pre]
  {
    fix g ord1 ord4 obs1 obs2
    assume h: "namedObjects g ord1 = obs1 @ ob # obs2 \<and> explicitAll E n g obs1 = Some (Nil, s0)
            \<and> \<not> Complete (objs s0 ! ob)"
    then have "namedObjects g ord1 = obs1 @ ob # obs2" "explicitAll E n g obs1 = Some (Nil, s0)"
        "\<not> Complete (objs s0 ! ob)"
      by blast+
    then show "Populate E n ord1 ord4 g =
              andThen (populateExplicit E n s0 ob)
                (\<lambda>s'. andThen (explicitAll E n s' obs2)
                   (\<lambda>s1. andThen (explicitFrom E n n s1 0) (\<lambda>s2. Some (capabilityPasses E ord4 s2))))"
      by (rule Populate_at_named)
  }
  {
    fix g ord1 ord4 s1 j
    assume h: "explicitAll E n g (namedObjects g ord1) = Some (Nil, s1)
            \<and> explicitIter E n j s1 0 = Some (Nil, s0) \<and> j < n
            \<and> j < length (unnamed s0) \<and> unnamed s0 ! j = ob \<and> \<not> Complete (objs s0 ! ob)"
    then have p: "explicitAll E n g (namedObjects g ord1) = Some (Nil, s1)"
        "explicitIter E n j s1 0 = Some (Nil, s0)" "j < n" "j < length (unnamed s0)"
      and o: "unnamed s0 ! j = ob" and c: "\<not> Complete (objs s0 ! ob)"
      by blast+
    from c o have c': "\<not> Complete (objs s0 ! (unnamed s0 ! j))" by simp
    show "Populate E n ord1 ord4 g = andThen (populateExplicit E n s0 ob) (afterObject E n ord4 j)"
      using Populate_at_object [OF p c', of ord4] o by simp
  }
  {
    fix c cs
    assume h: "\<not> Private tg \<and> candidates E s (fieldType fd) = c # cs"
    then have np: "\<not> Private tg" and cand: "candidates E s (fieldType fd) = c # cs"
      by blast+
    show "populateExplicit E n s0 ob =
              structLoop E n (assign s ob a (length fds1) fd c) ob a (Ptr (Struct sn0)) (length fds1 + 1) fds2"
      unfolding at reuse_step [OF fld tg bare ptr prov np cand] by simp
    show "load (assign s ob a (length fds1) fd c) (fieldAddr a (length fds1))
        = Some (snd (the (Value (objs s ! c))))"
      using fld ptr by (simp add: load_assign)
    show "map_of (the (Fields (objs (assign s ob a (length fds1) fd c) ! ob))) (fieldName fd) = Some c"
      using obl by (simp add: assign_def Fields_addDep)
  }
  {
    fix z m
    assume h: "(Private tg \<or> candidates E s (fieldType fd) = []) \<and> n = Suc m
              \<and> zeroVal E n (Struct sn) = Some z"
    then have none: "Private tg \<or> candidates E s (fieldType fd) = []" and hn: "n = Suc m"
      and "zeroVal E n (Struct sn) = Some z"
      by blast+
    then have hz: "zeroVal E (Suc m) (Struct sn) = Some z"
      unfolding hn by blast
    from none have "Private tg \<or> \<not> typeTaken s (fieldType fd)"
      using no_candidate_not_taken [OF inv] by blast
    then have ok: "Private tg \<or> \<not> typeTaken s (Ptr (Struct sn))"
      using ptr by simp
    from hz show "isNilOrZero z" by (rule zeroVal_isNilOrZero)
    show "cells (registerCreated s (fieldType fd) z (Private tg)) = cells s @ [z]"
      and "unnamed (registerCreated s (fieldType fd) z (Private tg)) = unnamed s @ [length (objs s)]"
      and "created (objs (registerCreated s (fieldType fd) z (Private tg)) ! length (objs s))"
      and "private' (objs (registerCreated s (fieldType fd) z (Private tg)) ! length (objs s)) = Private tg"
      and "Value (objs (registerCreated s (fieldType fd) z (Private tg)) ! length (objs s))
                = Some (fieldType fd, VPtr (Some (length (cells s), [])))"
      unfolding ptr by (simp_all add: registerCreated_facts [OF ok])
    show "populateExplicit E n s0 ob =
                andThen (populateExplicit E m (registerCreated s (fieldType fd) z (Private tg)) (length (objs s)))
                  (\<lambda>s3. structLoop E n
                           (addDep (storeAt s3 (fieldAddr a (length fds1)) (VPtr (Some (length (cells s), []))))
                              ob (fieldName fd) (length (objs s)))
                           ob a (Ptr (Struct sn0)) (length fds1 + 1) fds2)"
      unfolding hn at [unfolded hn] create_step [OF fld tg bare ptr prov inv none hz]
      by (simp add: andThen_assoc)
  }
qed

text \<open>
  Both cases under \<open>Populate\<close>: a \<open>ServiceA\<close> and a \<open>ServiceB{}\<close> provided (the
  field \<open>A\<close> gets the provided \<open>ServiceA\<close>), and a \<open>ServiceB{}\<close> provided alone (a
  \<open>ServiceA\<close> is created, registered and assigned).
\<close>

theorem pointer_field_reuse_or_create_witness:
  "Populate EDeep 2 [] [] sAB = Some (Nil, assign sAB 1 (1, []) 0 fieldA 0)
   \<and> load (assign sAB 1 (1, []) 0 fieldA 0) (1, [0]) = Some (VPtr (Some (0, [])))
   \<and> map_of (the (Fields (objs (assign sAB 1 (1, []) 0 fieldA 0) ! 1))) ''A'' = Some 0
   \<and> Populate EDeep 2 [] [] sB
      = Some (Nil, addDep (storeAt (registerCreated sB (Ptr (Struct ''ServiceA'')) (VStruct [VBasic 0]) False)
                     (0, [0]) (VPtr (Some (1, [])))) 0 ''A'' 1)
   \<and> created (objs (registerCreated sB (Ptr (Struct ''ServiceA'')) (VStruct [VBasic 0]) False) ! 1)"
proof -
  have t: "tagName injectOnly = []" "\<not> Inline injectOnly" "\<not> Private injectOnly"
    by (simp_all add: injectOnly_def)
  have z: "isNilOrZero (VPtr None)" by simp
  have fs: "structFields EDeep ''ServiceB'' = [] @ fieldA # []"
    by (simp add: EDeep_def fieldA_def)
  have reuse: "Populate EDeep 2 [] [] sAB = Some (Nil, assign sAB 1 (1, []) 0 fieldA 0)
   \<and> load (assign sAB 1 (1, []) 0 fieldA 0) (1, [0]) = Some (VPtr (Some (0, [])))
   \<and> map_of (the (Fields (objs (assign sAB 1 (1, []) 0 fieldA 0) ! 1))) ''A'' = Some 0"
  proof -
    have obj: "structOf (objs sAB ! 1) = Some (''ServiceB'', (1, []))"
      by (simp add: sAB_eval)
    have pre: "structLoop EDeep 2 sAB 1 (1, []) (Ptr (Struct ''ServiceB'')) 0 [] = Some (Nil, sAB)"
      by (simp add: structLoop.simps)
    have l: "load sAB (fieldAddr (1, []) (length ([] :: StructField list))) = Some (VPtr None)"
      by (simp add: sAB_eval load_def fieldAddr_def)
    have p: "\<forall>e\<in>set (unnamed sAB). provided sAB e"
      by (simp add: sAB_eval provided_def)
    have ol: "1 < length (objs sAB)" by (simp add: sAB_eval)
    have i: "takenTracked sAB" by (simp add: takenTracked_def sAB_eval)
    have c: "\<not> Private injectOnly \<and> candidates EDeep sAB (fieldType fieldA) = 0 # []"
      by (simp add: candidates_def candidate_def sAB_eval fieldA_simps t)
    have v: "Value (objs sAB ! 0) = Some (Ptr (Struct ''ServiceA''), VPtr (Some (0, [])))"
      by (simp add: sAB_eval)
    have ctx: "explicitAll EDeep 2 sAB (namedObjects sAB []) = Some (Nil, sAB)
            \<and> explicitIter EDeep 2 1 sAB 0 = Some (Nil, sAB) \<and> 1 < (2 :: nat)
            \<and> 1 < length (unnamed sAB) \<and> unnamed sAB ! 1 = 1 \<and> \<not> Complete (objs sAB ! 1)"
      by code_simp
    have rest: "afterObject EDeep 2 [] 1 (assign sAB 1 (1, []) 0 fieldA 0)
        = Some (Nil, assign sAB 1 (1, []) 0 fieldA 0)"
      by code_simp
    note r = pointer_field_reuse_or_create [OF obj fs pre l z fieldA_simps(4) t(1,2) fieldA_simps(2,1) p i ol]
    from r [THEN conjunct2, THEN conjunct1, rule_format, OF ctx]
    have a: "Populate EDeep 2 [] [] sAB = andThen (populateExplicit EDeep 2 sAB 1) (afterObject EDeep 2 [] 1)" .
    from r [THEN conjunct2, THEN conjunct2, THEN conjunct1, rule_format, OF c]
    have b: "populateExplicit EDeep 2 sAB 1 = Some (Nil, assign sAB 1 (1, []) 0 fieldA 0)"
      and d: "load (assign sAB 1 (1, []) 0 fieldA 0) (1, [0]) = Some (VPtr (Some (0, [])))"
      and e: "map_of (the (Fields (objs (assign sAB 1 (1, []) 0 fieldA 0) ! 1))) ''A'' = Some 0"
      by (simp_all add: structLoop.simps(1) fieldAddr_def v fieldA_simps)
    from a b d e rest show ?thesis by simp
  qed
  have create: "Populate EDeep 2 [] [] sB
      = Some (Nil, addDep (storeAt (registerCreated sB (Ptr (Struct ''ServiceA'')) (VStruct [VBasic 0]) False)
                     (0, [0]) (VPtr (Some (1, [])))) 0 ''A'' 1)
   \<and> created (objs (registerCreated sB (Ptr (Struct ''ServiceA'')) (VStruct [VBasic 0]) False) ! 1)"
  proof -
    have obj: "structOf (objs sB ! 0) = Some (''ServiceB'', (0, []))"
      by (simp add: sB_eval)
    have pre: "structLoop EDeep 2 sB 0 (0, []) (Ptr (Struct ''ServiceB'')) 0 [] = Some (Nil, sB)"
      by (simp add: structLoop.simps)
    have l: "load sB (fieldAddr (0, []) (length ([] :: StructField list))) = Some (VPtr None)"
      by (simp add: sB_eval load_def fieldAddr_def)
    have p: "\<forall>e\<in>set (unnamed sB). provided sB e"
      by (simp add: sB_eval provided_def)
    have ol: "0 < length (objs sB)" by (simp add: sB_eval)
    have i: "takenTracked sB" by (simp add: takenTracked_def sB_eval)
    have len: "length (objs sB) = Suc 0" "length (cells sB) = Suc 0"
      by (simp_all add: sB_eval)
    have c: "(Private injectOnly \<or> candidates EDeep sB (fieldType fieldA) = []) \<and> 2 = Suc 1
        \<and> zeroVal EDeep 2 (Struct ''ServiceA'') = Some (VStruct [VBasic 0])"
      by (simp add: candidates_def candidate_def sB_eval fieldA_simps EDeep_def exportedField_def
          numeral_2_eq_2)
    have ctx: "explicitAll EDeep 2 sB (namedObjects sB []) = Some (Nil, sB)
            \<and> explicitIter EDeep 2 0 sB 0 = Some (Nil, sB) \<and> 0 < (2 :: nat)
            \<and> 0 < length (unnamed sB) \<and> unnamed sB ! 0 = 0 \<and> \<not> Complete (objs sB ! 0)"
      by code_simp
    have rec: "populateExplicit EDeep (Suc 0) (registerCreated sB (Ptr (Struct ''ServiceA'')) (VStruct [VBasic 0]) False) (Suc 0)
        = Some (Nil, registerCreated sB (Ptr (Struct ''ServiceA'')) (VStruct [VBasic 0]) False)"
      by code_simp
    have rest: "afterObject EDeep 2 [] 0
          (addDep (storeAt (registerCreated sB (Ptr (Struct ''ServiceA'')) (VStruct [VBasic 0]) False)
                     (0, [0]) (VPtr (Some (Suc 0, [])))) 0 ''A'' (Suc 0))
        = Some (Nil, addDep (storeAt (registerCreated sB (Ptr (Struct ''ServiceA'')) (VStruct [VBasic 0]) False)
                     (0, [0]) (VPtr (Some (Suc 0, [])))) 0 ''A'' (Suc 0))"
      by code_simp
    note r = pointer_field_reuse_or_create [OF obj fs pre l z fieldA_simps(4) t(1,2) fieldA_simps(2,1) p i ol]
    from r [THEN conjunct2, THEN conjunct1, rule_format, OF ctx]
    have a: "Populate EDeep 2 [] [] sB = andThen (populateExplicit EDeep 2 sB 0) (afterObject EDeep 2 [] 0)" .
    from r [THEN conjunct2, THEN conjunct2, THEN conjunct2, rule_format, OF c]
    have b: "populateExplicit EDeep 2 sB 0
        = Some (Nil, addDep (storeAt (registerCreated sB (Ptr (Struct ''ServiceA'')) (VStruct [VBasic 0]) False)
                     (0, [0]) (VPtr (Some (Suc 0, [])))) 0 ''A'' (Suc 0))"
      and d: "created (objs (registerCreated sB (Ptr (Struct ''ServiceA'')) (VStruct [VBasic 0]) False) ! Suc 0)"
      by (simp_all add: structLoop.simps(1) fieldAddr_def fieldA_simps t len rec)
    from a b d rest show ?thesis by simp
  qed
  from reuse create show ?thesis by blast
qed

text \<open>
  C3 as the claim states it fails when the resolution of the new instance fails. With
  \<open>sOuter\<close> the field \<open>Outer.In\<close> is nil, its directive is bare and no unnamed object
  has an assignable type; \<open>Populate\<close> allocates an \<open>Inner\<close> and registers it with
  \<open>created\<close> true, the resolution of the \<open>Inner\<close> returns the unexported-field error,
  and \<open>Populate\<close> returns that error with \<open>Outer.In\<close> still nil and no edge recorded.
\<close>

theorem created_instance_not_assigned:
  "load sOuter (0, [0]) = Some (VPtr None)
   \<and> candidates EOuter sOuter (Ptr (Struct ''Inner'')) = []
   \<and> (case Populate EOuter 2 [] [] sOuter of
        Some (Err e, s') \<Rightarrow>
          e = UnexportedField ''x'' (Ptr (Struct ''Inner''))
          \<and> unnamed s' = [0, 1]
          \<and> Value (objs s' ! 1) = Some (Ptr (Struct ''Inner''), VPtr (Some (1, [])))
          \<and> created (objs s' ! 1)
          \<and> load s' (0, [0]) = Some (VPtr None)
          \<and> Fields (objs s' ! 0) = None
      | _ \<Rightarrow> False)"
  by code_simp

text \<open>
  C1 (as amended). \<open>populateExplicit\<close> runs on the object \<open>ob\<close>, whose struct has the
  fields \<open>fds1\<close>, \<open>fd\<close>, \<open>fds2\<close>, and has come through \<open>fds1\<close> (state \<open>s\<close>).
  The field \<open>fd\<close> is an exported pointer-to-struct field with a directive that is
  neither private nor inline, and it holds a non-nil pointer \<open>p\<close> that no unnamed
  object holds.

  \<^item> \<open>Populate\<close> runs \<open>populateExplicit\<close> on every named object and on every unnamed
    object that is not complete, and goes on with the rest only when that returns nil.
  \<^item> If no non-private unnamed object of the field's type is registered (the type is not
    marked as taken), the value is registered as a new unnamed object, neither private
    nor created, which leaves the memory as it is, and \<open>populateExplicit\<close> runs on it,
    that is the field loop over the fields of the struct at \<open>p\<close>. When that returns nil,
    the loop goes on with the next field; when it returns an error, that error is the
    result; when it does not return, nothing does. Whenever it returns, the field
    \<open>fd\<close> still holds \<open>p\<close>.
  \<^item> If the type is marked as taken, the value is left unregistered (\<open>g.unnamed\<close>,
    \<open>g.unnamedType\<close> and \<open>g.named\<close> are as before), the memory is as it is, and the
    loop goes on with the next field.

  The scenario of the claim, \<open>ServiceC{B: &ServiceB{}}\<close> provided with a \<open>ServiceA\<close>,
  is the theorem after this one.
\<close>

theorem deep_injection:
  assumes obj: "structOf (objs s0 ! ob) = Some (sn0, a)"
    and fds: "structFields E sn0 = fds1 @ fd # fds2"
    and pre: "structLoop E n s0 ob a (Ptr (Struct sn0)) 0 fds1 = Some (Nil, s)"
    and fld: "load s (fieldAddr a (length fds1)) = Some (VPtr (Some p))"
    and tg: "parseTag (unquote E) (fieldTag fd) = (Some tg, None)"
    and dir: "\<not> Private tg" "\<not> Inline tg" "canSet fd"
    and ptr: "fieldType fd = Ptr (Struct sn)"
    and untracked: "\<not> tracked s (fieldType fd, VPtr (Some p))"
  shows "(\<forall>g ord1 ord4 obs1 obs2.
            namedObjects g ord1 = obs1 @ ob # obs2 \<and> explicitAll E n g obs1 = Some (Nil, s0)
            \<and> \<not> Complete (objs s0 ! ob) \<longrightarrow>
            Populate E n ord1 ord4 g =
              andThen (populateExplicit E n s0 ob)
                (\<lambda>s'. andThen (explicitAll E n s' obs2)
                   (\<lambda>s1. andThen (explicitFrom E n n s1 0) (\<lambda>s2. Some (capabilityPasses E ord4 s2)))))
       \<and> (\<forall>g ord1 ord4 s1 j.
            explicitAll E n g (namedObjects g ord1) = Some (Nil, s1)
            \<and> explicitIter E n j s1 0 = Some (Nil, s0) \<and> j < n
            \<and> j < length (unnamed s0) \<and> unnamed s0 ! j = ob \<and> \<not> Complete (objs s0 ! ob) \<longrightarrow>
            Populate E n ord1 ord4 g = andThen (populateExplicit E n s0 ob) (afterObject E n ord4 j))
       \<and> (\<not> typeTaken s (fieldType fd) \<longrightarrow>
            unnamed (registerExisting s (fieldType fd, VPtr (Some p))) = unnamed s @ [length (objs s)]
            \<and> Value (objs (registerExisting s (fieldType fd, VPtr (Some p))) ! length (objs s))
                = Some (fieldType fd, VPtr (Some p))
            \<and> \<not> private' (objs (registerExisting s (fieldType fd, VPtr (Some p))) ! length (objs s))
            \<and> \<not> created (objs (registerExisting s (fieldType fd, VPtr (Some p))) ! length (objs s))
            \<and> cells (registerExisting s (fieldType fd, VPtr (Some p))) = cells s
            \<and> (\<forall>m. n = Suc m \<longrightarrow>
                 populateExplicit E n s0 ob =
                   andThen (populateExplicit E m (registerExisting s (fieldType fd, VPtr (Some p))) (length (objs s)))
                     (\<lambda>s3. structLoop E n s3 ob a (Ptr (Struct sn0)) (length fds1 + 1) fds2)
                 \<and> populateExplicit E m (registerExisting s (fieldType fd, VPtr (Some p))) (length (objs s)) =
                     structLoop E m (registerExisting s (fieldType fd, VPtr (Some p))) (length (objs s))
                       p (Ptr (Struct sn)) 0 (structFields E sn)
                 \<and> (\<forall>r s3. populateExplicit E m (registerExisting s (fieldType fd, VPtr (Some p))) (length (objs s))
                              = Some (r, s3) \<longrightarrow>
                      load s3 (fieldAddr a (length fds1)) = Some (VPtr (Some p)))))
       \<and> (typeTaken s (fieldType fd) \<longrightarrow>
            populateExplicit E n s0 ob =
              structLoop E n (registerExisting s (fieldType fd, VPtr (Some p))) ob a (Ptr (Struct sn0))
                (length fds1 + 1) fds2
            \<and> unnamed (registerExisting s (fieldType fd, VPtr (Some p))) = unnamed s
            \<and> unnamedType (registerExisting s (fieldType fd, VPtr (Some p))) = unnamedType s
            \<and> named (registerExisting s (fieldType fd, VPtr (Some p))) = named s
            \<and> cells (registerExisting s (fieldType fd, VPtr (Some p))) = cells s)"
proof (intro conjI allI impI)
  note at = populateExplicit_at_field [OF obj fds pre]
  have nz: "\<not> isNilOrZero (VPtr (Some p))" by simp
  note step = deep_step1 [OF fld nz tg dir ptr untracked]
  {
    fix g ord1 ord4 obs1 obs2
    assume h: "namedObjects g ord1 = obs1 @ ob # obs2 \<and> explicitAll E n g obs1 = Some (Nil, s0)
            \<and> \<not> Complete (objs s0 ! ob)"
    then have "namedObjects g ord1 = obs1 @ ob # obs2" "explicitAll E n g obs1 = Some (Nil, s0)"
        "\<not> Complete (objs s0 ! ob)"
      by blast+
    then show "Populate E n ord1 ord4 g =
              andThen (populateExplicit E n s0 ob)
                (\<lambda>s'. andThen (explicitAll E n s' obs2)
                   (\<lambda>s1. andThen (explicitFrom E n n s1 0) (\<lambda>s2. Some (capabilityPasses E ord4 s2))))"
      by (rule Populate_at_named)
  }
  {
    fix g ord1 ord4 s1 j
    assume h: "explicitAll E n g (namedObjects g ord1) = Some (Nil, s1)
            \<and> explicitIter E n j s1 0 = Some (Nil, s0) \<and> j < n
            \<and> j < length (unnamed s0) \<and> unnamed s0 ! j = ob \<and> \<not> Complete (objs s0 ! ob)"
    then have p: "explicitAll E n g (namedObjects g ord1) = Some (Nil, s1)"
        "explicitIter E n j s1 0 = Some (Nil, s0)" "j < n" "j < length (unnamed s0)"
      and o: "unnamed s0 ! j = ob" and c: "\<not> Complete (objs s0 ! ob)"
      by blast+
    from c o have c': "\<not> Complete (objs s0 ! (unnamed s0 ! j))" by simp
    show "Populate E n ord1 ord4 g = andThen (populateExplicit E n s0 ob) (afterObject E n ord4 j)"
      using Populate_at_object [OF p c', of ord4] o by simp
  }
  {
    assume "\<not> typeTaken s (fieldType fd)"
    then have free: "\<not> typeTaken s (Ptr (Struct sn))"
      by (simp add: ptr)
    note reg = Provide_registerExisting [OF free, of "VPtr (Some p)"]
    show "unnamed (registerExisting s (fieldType fd, VPtr (Some p))) = unnamed s @ [length (objs s)]"
      and "Value (objs (registerExisting s (fieldType fd, VPtr (Some p))) ! length (objs s))
                = Some (fieldType fd, VPtr (Some p))"
      and "\<not> private' (objs (registerExisting s (fieldType fd, VPtr (Some p))) ! length (objs s))"
      and "\<not> created (objs (registerExisting s (fieldType fd, VPtr (Some p))) ! length (objs s))"
      and c: "cells (registerExisting s (fieldType fd, VPtr (Some p))) = cells s"
      by (simp_all add: ptr reg)
    have st: "structOf (objs (registerExisting s (Ptr (Struct sn), VPtr (Some p))) ! length (objs s))
        = Some (sn, p)"
      by (simp add: reg)
    fix m
    assume hn: "n = Suc m"
    show "populateExplicit E n s0 ob =
                   andThen (populateExplicit E m (registerExisting s (fieldType fd, VPtr (Some p))) (length (objs s)))
                     (\<lambda>s3. structLoop E n s3 ob a (Ptr (Struct sn0)) (length fds1 + 1) fds2)"
      unfolding at step by (simp add: ptr reg hn)
    show "populateExplicit E m (registerExisting s (fieldType fd, VPtr (Some p))) (length (objs s)) =
                     structLoop E m (registerExisting s (fieldType fd, VPtr (Some p))) (length (objs s))
                       p (Ptr (Struct sn)) 0 (structFields E sn)"
      unfolding ptr by (rule populateExplicit_struct [OF st])
    fix r s3
    assume rec: "populateExplicit E m (registerExisting s (fieldType fd, VPtr (Some p))) (length (objs s))
                              = Some (r, s3)"
    have "load (registerExisting s (fieldType fd, VPtr (Some p))) (fieldAddr a (length fds1))
        = load s (fieldAddr a (length fds1))"
      by (simp add: load_def c)
    then have "load (registerExisting s (fieldType fd, VPtr (Some p))) (fieldAddr a (length fds1))
        = Some (VPtr (Some p))"
      by (simp add: fld)
    with rec show "load s3 (fieldAddr a (length fds1)) = Some (VPtr (Some p))"
      by (rule populateExplicit_keeps_pointer)
  }
  {
    assume "typeTaken s (fieldType fd)"
    then have taken: "typeTaken s (Ptr (Struct sn))"
      by (simp add: ptr)
    note reg = Provide_registerExisting_taken [OF taken, of "VPtr (Some p)"]
    show "populateExplicit E n s0 ob =
              structLoop E n (registerExisting s (fieldType fd, VPtr (Some p))) ob a (Ptr (Struct sn0))
                (length fds1 + 1) fds2"
      unfolding at step by (simp add: ptr reg)
    show "unnamed (registerExisting s (fieldType fd, VPtr (Some p))) = unnamed s"
      and "unnamedType (registerExisting s (fieldType fd, VPtr (Some p))) = unnamedType s"
      and "named (registerExisting s (fieldType fd, VPtr (Some p))) = named s"
      and "cells (registerExisting s (fieldType fd, VPtr (Some p))) = cells s"
      by (simp_all add: ptr reg)
  }
qed

text \<open>
  The scenario under \<open>Populate\<close>: the \<open>ServiceB\<close> found in \<open>ServiceC.B\<close> is
  registered, its field \<open>A\<close> gets the provided \<open>ServiceA\<close>, and \<open>ServiceC.B\<close> is
  the pointer it was.
\<close>

theorem deep_injection_witness:
  "Populate EDeep 3 [] [] sDeep =
     Some (Nil, assign (registerExisting sDeep (Ptr (Struct ''ServiceB''), VPtr (Some (1, [])))) 2 (1, []) 0 fieldA 0)
   \<and> load (assign (registerExisting sDeep (Ptr (Struct ''ServiceB''), VPtr (Some (1, [])))) 2 (1, []) 0 fieldA 0)
        (2, [0]) = Some (VPtr (Some (1, [])))
   \<and> load (assign (registerExisting sDeep (Ptr (Struct ''ServiceB''), VPtr (Some (1, [])))) 2 (1, []) 0 fieldA 0)
        (1, [0]) = Some (VPtr (Some (0, [])))
   \<and> tracked (assign (registerExisting sDeep (Ptr (Struct ''ServiceB''), VPtr (Some (1, [])))) 2 (1, []) 0 fieldA 0)
        (Ptr (Struct ''ServiceB''), VPtr (Some (1, [])))
   \<and> unnamed (registerExisting sDeep (Ptr (Struct ''ServiceB''), VPtr (Some (1, [])))) = [0, 1, 2]
   \<and> cells (registerExisting sDeep (Ptr (Struct ''ServiceB''), VPtr (Some (1, [])))) = cells sDeep"
proof -
  have t: "\<not> Private injectOnly" "\<not> Inline injectOnly"
    by (simp_all add: injectOnly_def)
  have obj: "structOf (objs sDeep ! 1) = Some (''ServiceC'', (2, []))"
    by (simp add: sDeep_eval)
  have fs: "structFields EDeep ''ServiceC'' = [] @ fieldB # []"
    by (simp add: EDeep_def fieldB_def)
  have pre: "structLoop EDeep 3 sDeep 1 (2, []) (Ptr (Struct ''ServiceC'')) 0 [] = Some (Nil, sDeep)"
    by (simp add: structLoop.simps)
  have l: "load sDeep (fieldAddr (2, []) (length ([] :: StructField list))) = Some (VPtr (Some (1, [])))"
    by (simp add: sDeep_eval load_def fieldAddr_def)
  have u: "\<not> tracked sDeep (fieldType fieldB, VPtr (Some (1, [])))"
    by (simp add: tracked_def sDeep_eval fieldB_simps)
  have f: "\<not> typeTaken sDeep (fieldType fieldB)"
    by (simp add: typeTaken_def sDeep_eval fieldB_simps)
  have len: "unnamed sDeep = [0, 1]" "length (objs sDeep) = 2"
    by (simp_all add: sDeep_eval)
  have ctx: "explicitAll EDeep 3 sDeep (namedObjects sDeep []) = Some (Nil, sDeep)
            \<and> explicitIter EDeep 3 1 sDeep 0 = Some (Nil, sDeep) \<and> 1 < (3 :: nat)
            \<and> 1 < length (unnamed sDeep) \<and> unnamed sDeep ! 1 = 1 \<and> \<not> Complete (objs sDeep ! 1)"
    by code_simp
  have rec: "populateExplicit EDeep 2 (registerExisting sDeep (Ptr (Struct ''ServiceB''), VPtr (Some (1, [])))) 2
      = Some (Nil, assign (registerExisting sDeep (Ptr (Struct ''ServiceB''), VPtr (Some (1, [])))) 2 (1, []) 0 fieldA 0)"
    by code_simp
  have rest: "afterObject EDeep 3 [] 1
        (assign (registerExisting sDeep (Ptr (Struct ''ServiceB''), VPtr (Some (1, [])))) 2 (1, []) 0 fieldA 0)
      = Some (Nil, assign (registerExisting sDeep (Ptr (Struct ''ServiceB''), VPtr (Some (1, [])))) 2 (1, []) 0 fieldA 0)"
    by code_simp
  have la: "load (assign (registerExisting sDeep (Ptr (Struct ''ServiceB''), VPtr (Some (1, [])))) 2 (1, []) 0 fieldA 0)
        (1, [0]) = Some (VPtr (Some (0, [])))"
    and tr: "tracked (assign (registerExisting sDeep (Ptr (Struct ''ServiceB''), VPtr (Some (1, [])))) 2 (1, []) 0 fieldA 0)
        (Ptr (Struct ''ServiceB''), VPtr (Some (1, [])))"
    by code_simp+
  note r = deep_injection [OF obj fs pre l fieldB_simps(4) t fieldB_simps(2,1) u]
  from r [THEN conjunct2, THEN conjunct1, rule_format, OF ctx]
  have a: "Populate EDeep 3 [] [] sDeep = andThen (populateExplicit EDeep 3 sDeep 1) (afterObject EDeep 3 [] 1)" .
  note reg = r [THEN conjunct2, THEN conjunct2, THEN conjunct1, rule_format, OF f, unfolded fieldB_simps len]
  from reg have un: "unnamed (registerExisting sDeep (Ptr (Struct ''ServiceB''), VPtr (Some (1, [])))) = [0, 1, 2]"
    and ce: "cells (registerExisting sDeep (Ptr (Struct ''ServiceB''), VPtr (Some (1, [])))) = cells sDeep"
    by simp_all
  have n3: "(3 :: nat) = Suc 2" by simp
  note deep = reg [THEN conjunct2, THEN conjunct2, THEN conjunct2, THEN conjunct2, THEN conjunct2,
      rule_format, OF n3]
  from deep [THEN conjunct1] have b: "populateExplicit EDeep 3 sDeep 1 =
      Some (Nil, assign (registerExisting sDeep (Ptr (Struct ''ServiceB''), VPtr (Some (1, [])))) 2 (1, []) 0 fieldA 0)"
    unfolding rec by (simp add: structLoop.simps(1))
  from deep [THEN conjunct2, THEN conjunct2, rule_format, OF rec]
  have lb: "load (assign (registerExisting sDeep (Ptr (Struct ''ServiceB''), VPtr (Some (1, [])))) 2 (1, []) 0 fieldA 0)
        (2, [0]) = Some (VPtr (Some (1, [])))"
    by (simp add: fieldAddr_def)
  from a b rest la lb tr un ce show ?thesis by simp
qed

text \<open>
  C1 as the claim states it fails when a non-private unnamed object of the value's type
  is registered already: in \<open>sDup\<close> the field \<open>ServiceC.B\<close> holds a \<open>ServiceB\<close>
  that no unnamed object holds, its directive is bare, and after \<open>Populate\<close> that
  \<open>ServiceB\<close> is still untracked and its field \<open>A\<close> is still nil.
\<close>

theorem deep_injection_skipped:
  "\<not> tracked sDup (Ptr (Struct ''ServiceB''), VPtr (Some (1, [])))
   \<and> load sDup (2, [0]) = Some (VPtr (Some (1, [])))
   \<and> (case Populate EDeep 4 [] [] sDup of
        Some (Nil, s') \<Rightarrow>
          \<not> tracked s' (Ptr (Struct ''ServiceB''), VPtr (Some (1, [])))
          \<and> load s' (1, [0]) = Some (VPtr None)
      | _ \<Rightarrow> False)"
  by code_simp





section \<open>The capability pass\<close>

text \<open>
  C4. \<open>Populate\<close> has come through its two explicit loops (state \<open>s2\<close>) and, in its
  capability loops, which visit the unnamed objects and then the named ones, through
  the objects \<open>obs1\<close> before \<open>ob\<close> and through the fields \<open>fds1\<close> of \<open>ob\<close>
  before \<open>fd\<close> (state \<open>s\<close>). The field \<open>fd\<close> is an exported interface field that is
  unset and carries a non-private, unnamed directive; the unnamed objects all went
  through \<open>Provide\<close>. The non-private unnamed objects whose type is assignable to the
  field's type are scanned. With exactly one of them, the field is assigned its value,
  the edge is recorded, and \<open>Populate\<close> goes on with the next field of \<open>ob\<close> and then
  with the objects after \<open>ob\<close>; with none, \<open>Populate\<close> returns the
  no-assignable-value error; with two or more, \<open>Populate\<close> returns the
  two-assignable-values error that names the first two of them.
\<close>

theorem capability_field:
  assumes p1: "explicitAll E n g (namedObjects g ord1) = Some (Nil, s1)"
    and p2: "explicitFrom E n n s1 0 = Some (Nil, s2)"
    and obs: "unnamed s2 @ namedObjects s2 ord4 = obs1 @ ob # obs2"
    and before: "interfaceAll E s2 obs1 = (Nil, s3)"
    and obj: "\<not> Complete (objs s3 ! ob)" "structOf (objs s3 ! ob) = Some (sn, a)"
    and fds: "structFields E sn = fds1 @ fd # fds2"
    and pre: "interfaceLoop E s3 ob a (Ptr (Struct sn)) 0 fds1 = (Nil, s)"
    and fld: "load s (fieldAddr a (length fds1)) = Some field"
    and tg: "parseTag (unquote E) (fieldTag fd) = (Some tg, None)"
    and k: "Kind (fieldType fd) = KInterface"
    and bare: "\<not> Private tg" "tagName tg = []"
    and unset: "canSet fd" "isNilOrZero field"
    and prov: "\<forall>e\<in>set (unnamed s). provided s e"
    and obl: "ob < length (objs s)"
  shows "(\<forall>c. candidates E s (fieldType fd) = [c] \<longrightarrow>
            Populate E n ord1 ord4 g =
              Some (andThenT
                      (interfaceLoop E (assign s ob a (length fds1) fd c) ob a (Ptr (Struct sn))
                         (length fds1 + 1) fds2)
                      (\<lambda>s'. interfaceAll E s' obs2))
            \<and> load (assign s ob a (length fds1) fd c) (fieldAddr a (length fds1))
                = Some (VIface (Value (objs s ! c)))
            \<and> map_of (the (Fields (objs (assign s ob a (length fds1) fd c) ! ob))) (fieldName fd)
                = Some c)
       \<and> (candidates E s (fieldType fd) = [] \<longrightarrow>
            Populate E n ord1 ord4 g = Some (Err (NoAssignable (fieldName fd) (Ptr (Struct sn))), s))
       \<and> (\<forall>c1 c2 cs. candidates E s (fieldType fd) = c1 # c2 # cs \<longrightarrow>
            Populate E n ord1 ord4 g =
              Some (Err (TwoAssignable (fieldName fd) (Ptr (Struct sn))
                           (the (reflectType (objs s ! c1))) (Value (objs s ! c1))
                           (the (reflectType (objs s ! c2))) (reflectValue (objs s ! c2))),
                    assign s ob a (length fds1) fd c1))"
proof (intro conjI allI impI)
  note ctx = Populate_at_capability [OF p1 p2 obs before obj fds pre]
  {
    fix c
    assume one: "candidates E s (fieldType fd) = [c]"
    then have "c \<in> set (filter (candidate E s (fieldType fd)) (unnamed s))"
      by (simp add: candidates_def)
    then have "c \<in> set (unnamed s)"
      by simp
    with prov obtain d where d: "Value (objs s ! c) = Some d"
      by (auto simp: provided_def)
    have "interfaceLoop E s ob a (Ptr (Struct sn)) (length fds1) [fd] =
        (Nil, assign s ob a (length fds1) fd c)"
      using fld tg k bare unset one
      by (simp add: assignLoop_none [OF prov] candidates_def)
    then show "Populate E n ord1 ord4 g =
              Some (andThenT
                      (interfaceLoop E (assign s ob a (length fds1) fd c) ob a (Ptr (Struct sn))
                         (length fds1 + 1) fds2)
                      (\<lambda>s'. interfaceAll E s' obs2))"
      unfolding ctx by simp
    show "load (assign s ob a (length fds1) fd c) (fieldAddr a (length fds1))
        = Some (VIface (Value (objs s ! c)))"
      using fld d by (simp add: load_assign fieldSet_interface [OF k])
    show "map_of (the (Fields (objs (assign s ob a (length fds1) fd c) ! ob))) (fieldName fd) = Some c"
      using obl by (simp add: assign_def Fields_addDep)
  }
  {
    assume "candidates E s (fieldType fd) = []"
    then have "interfaceLoop E s ob a (Ptr (Struct sn)) (length fds1) [fd] =
        (Err (NoAssignable (fieldName fd) (Ptr (Struct sn))), s)"
      using fld tg k bare unset
      by (simp add: assignLoop_none [OF prov] candidates_def)
    then show "Populate E n ord1 ord4 g = Some (Err (NoAssignable (fieldName fd) (Ptr (Struct sn))), s)"
      unfolding ctx by simp
  }
  {
    fix c1 c2 cs
    assume "candidates E s (fieldType fd) = c1 # c2 # cs"
    then have "interfaceLoop E s ob a (Ptr (Struct sn)) (length fds1) [fd] =
        (Err (TwoAssignable (fieldName fd) (Ptr (Struct sn))
                           (the (reflectType (objs s ! c1))) (Value (objs s ! c1))
                           (the (reflectType (objs s ! c2))) (reflectValue (objs s ! c2))),
                    assign s ob a (length fds1) fd c1)"
      using fld tg k bare unset
      by (simp add: assignLoop_none [OF prov] candidates_def)
    then show "Populate E n ord1 ord4 g =
              Some (Err (TwoAssignable (fieldName fd) (Ptr (Struct sn))
                           (the (reflectType (objs s ! c1))) (Value (objs s ! c1))
                           (the (reflectType (objs s ! c2))) (reflectValue (objs s ! c2))),
                    assign s ob a (length fds1) fd c1)"
      unfolding ctx by simp
  }
qed

text \<open>
  The three outcomes: an \<open>Impl1\<close> and a \<open>User\<close> provided; a \<open>User\<close> alone; an
  \<open>Impl1\<close>, an \<open>Impl2\<close> and a \<open>User\<close>.
\<close>

theorem capability_field_witness:
  "Populate ECap 2 [] [] sCap1 = Some (Nil, assign sCap1 1 (1, []) 0 fieldD 0)
   \<and> load (assign sCap1 1 (1, []) 0 fieldD 0) (1, [0])
       = Some (VIface (Some (Ptr (Struct ''Impl1''), VPtr (Some (0, [])))))
   \<and> map_of (the (Fields (objs (assign sCap1 1 (1, []) 0 fieldD 0) ! 1))) ''D'' = Some 0
   \<and> Populate ECap 1 [] [] sCap0 = Some (Err (NoAssignable ''D'' (Ptr (Struct ''User''))), sCap0)
   \<and> Populate ECap 3 [] [] sCap2 =
       Some (Err (TwoAssignable ''D'' (Ptr (Struct ''User''))
                    (Ptr (Struct ''Impl1'')) (Some (Ptr (Struct ''Impl1''), VPtr (Some (0, []))))
                    (Ptr (Struct ''Impl2'')) (Some (Ptr (Struct ''Impl2''), VPtr (Some (1, []))))),
             assign sCap2 2 (2, []) 0 fieldD 0)"
proof -
  have h2: "parseTag (unquote ECap) (fieldTag fieldD) = (Some injectOnly, None)"
    by (simp add: ECap_def fieldD_def exportedField_def parseTag_tagBare)
  have h3: "Kind (fieldType fieldD) = KInterface" "canSet fieldD"
    by (simp_all add: fieldD_def exportedField_def)
  have h4: "\<not> Private injectOnly" "tagName injectOnly = []" "isNilOrZero (VIface None)"
    by (simp_all add: injectOnly_def)
  have n: "fieldName fieldD = ''D''"
    by (simp add: fieldD_def exportedField_def)
  have fs: "structFields ECap ''User'' = [] @ fieldD # []"
    by (simp add: ECap_def fieldD_def)
  have one: "Populate ECap 2 [] [] sCap1 = Some (Nil, assign sCap1 1 (1, []) 0 fieldD 0)
   \<and> load (assign sCap1 1 (1, []) 0 fieldD 0) (1, [0])
       = Some (VIface (Some (Ptr (Struct ''Impl1''), VPtr (Some (0, [])))))
   \<and> map_of (the (Fields (objs (assign sCap1 1 (1, []) 0 fieldD 0) ! 1))) ''D'' = Some 0"
  proof -
    have p1: "explicitAll ECap 2 sCap1 (namedObjects sCap1 []) = Some (Nil, sCap1)"
      by (simp add: namedObjects_def map_filter_simps)
    have p2: "explicitFrom ECap 2 2 sCap1 0 = Some (Nil, sCap1)"
      by code_simp
    have obs: "unnamed sCap1 @ namedObjects sCap1 [] = [0] @ 1 # []"
      by (simp add: namedObjects_def map_filter_simps sCap1_eval)
    have before: "interfaceAll ECap sCap1 [0] = (Nil, sCap1)"
      by code_simp
    have obj: "\<not> Complete (objs sCap1 ! 1)" "structOf (objs sCap1 ! 1) = Some (''User'', (1, []))"
      by (simp_all add: sCap1_eval)
    have pre: "interfaceLoop ECap sCap1 1 (1, []) (Ptr (Struct ''User'')) 0 [] = (Nil, sCap1)"
      by simp
    have h1: "load sCap1 (fieldAddr (1, []) (length ([] :: StructField list))) = Some (VIface None)"
      by (simp add: sCap1_eval load_def fieldAddr_def)
    have h5: "\<forall>e\<in>set (unnamed sCap1). provided sCap1 e"
      by (simp add: sCap1_eval provided_def)
    have h6: "1 < length (objs sCap1)"
      by (simp add: sCap1_eval)
    have c: "candidates ECap sCap1 (fieldType fieldD) = [0]"
      by (simp add: candidates_def candidate_def sCap1_eval fieldD_def exportedField_def ECap_def)
    have v: "Value (objs sCap1 ! 0) = Some (Ptr (Struct ''Impl1''), VPtr (Some (0, [])))"
      by (simp add: sCap1_eval)
    note r = capability_field [OF p1 p2 obs before obj fs pre h1 h2 h3(1) h4(1,2) h3(2) h4(3) h5 h6,
        THEN conjunct1, rule_format, OF c]
    from r show ?thesis
      by (simp add: fieldAddr_def v n)
  qed
  have none: "Populate ECap 1 [] [] sCap0 = Some (Err (NoAssignable ''D'' (Ptr (Struct ''User''))), sCap0)"
  proof -
    have p1: "explicitAll ECap 1 sCap0 (namedObjects sCap0 []) = Some (Nil, sCap0)"
      by (simp add: namedObjects_def map_filter_simps)
    have p2: "explicitFrom ECap 1 1 sCap0 0 = Some (Nil, sCap0)"
      by code_simp
    have obs: "unnamed sCap0 @ namedObjects sCap0 [] = [] @ 0 # []"
      by (simp add: namedObjects_def map_filter_simps sCap0_eval)
    have before: "interfaceAll ECap sCap0 [] = (Nil, sCap0)"
      by simp
    have obj: "\<not> Complete (objs sCap0 ! 0)" "structOf (objs sCap0 ! 0) = Some (''User'', (0, []))"
      by (simp_all add: sCap0_eval)
    have pre: "interfaceLoop ECap sCap0 0 (0, []) (Ptr (Struct ''User'')) 0 [] = (Nil, sCap0)"
      by simp
    have h1: "load sCap0 (fieldAddr (0, []) (length ([] :: StructField list))) = Some (VIface None)"
      by (simp add: sCap0_eval load_def fieldAddr_def)
    have h5: "\<forall>e\<in>set (unnamed sCap0). provided sCap0 e"
      by (simp add: sCap0_eval provided_def)
    have h6: "0 < length (objs sCap0)"
      by (simp add: sCap0_eval)
    have c: "candidates ECap sCap0 (fieldType fieldD) = []"
      by (simp add: candidates_def candidate_def sCap0_eval fieldD_def exportedField_def ECap_def)
    note r = capability_field [OF p1 p2 obs before obj fs pre h1 h2 h3(1) h4(1,2) h3(2) h4(3) h5 h6,
        THEN conjunct2, THEN conjunct1, rule_format, OF c]
    from r show ?thesis
      by (simp add: n)
  qed
  have two: "Populate ECap 3 [] [] sCap2 =
       Some (Err (TwoAssignable ''D'' (Ptr (Struct ''User''))
                    (Ptr (Struct ''Impl1'')) (Some (Ptr (Struct ''Impl1''), VPtr (Some (0, []))))
                    (Ptr (Struct ''Impl2'')) (Some (Ptr (Struct ''Impl2''), VPtr (Some (1, []))))),
             assign sCap2 2 (2, []) 0 fieldD 0)"
  proof -
    have p1: "explicitAll ECap 3 sCap2 (namedObjects sCap2 []) = Some (Nil, sCap2)"
      by (simp add: namedObjects_def map_filter_simps)
    have p2: "explicitFrom ECap 3 3 sCap2 0 = Some (Nil, sCap2)"
      by code_simp
    have obs: "unnamed sCap2 @ namedObjects sCap2 [] = [0, 1] @ 2 # []"
      by (simp add: namedObjects_def map_filter_simps sCap2_eval)
    have before: "interfaceAll ECap sCap2 [0, 1] = (Nil, sCap2)"
      by code_simp
    have obj: "\<not> Complete (objs sCap2 ! 2)" "structOf (objs sCap2 ! 2) = Some (''User'', (2, []))"
      by (simp_all add: sCap2_eval)
    have pre: "interfaceLoop ECap sCap2 2 (2, []) (Ptr (Struct ''User'')) 0 [] = (Nil, sCap2)"
      by simp
    have h1: "load sCap2 (fieldAddr (2, []) (length ([] :: StructField list))) = Some (VIface None)"
      by (simp add: sCap2_eval load_def fieldAddr_def)
    have h5: "\<forall>e\<in>set (unnamed sCap2). provided sCap2 e"
      by (simp add: sCap2_eval provided_def)
    have h6: "2 < length (objs sCap2)"
      by (simp add: sCap2_eval)
    have c: "candidates ECap sCap2 (fieldType fieldD) = 0 # 1 # []"
      by (simp add: candidates_def candidate_def sCap2_eval fieldD_def exportedField_def ECap_def)
    have v: "reflectType (objs sCap2 ! 0) = Some (Ptr (Struct ''Impl1''))"
      "Value (objs sCap2 ! 0) = Some (Ptr (Struct ''Impl1''), VPtr (Some (0, [])))"
      "reflectType (objs sCap2 ! Suc 0) = Some (Ptr (Struct ''Impl2''))"
      "reflectValue (objs sCap2 ! Suc 0) = Some (Ptr (Struct ''Impl2''), VPtr (Some (Suc 0, [])))"
      by (simp_all add: sCap2_eval)
    note r = capability_field [OF p1 p2 obs before obj fs pre h1 h2 h3(1) h4(1,2) h3(2) h4(3) h5 h6,
        THEN conjunct2, THEN conjunct2, rule_format, OF c]
    from r show ?thesis
      by (simp add: n v)
  qed
  from one none two show ?thesis by blast
qed



section \<open>Named objects that hold no struct pointer\<close>

text \<open>
  C9 (as amended). A named object whose value is not nil and whose type is not a pointer
  to a struct is skipped by both passes: \<open>populateExplicit\<close> and
  \<open>populateUnnamedInterface\<close> return nil at once and leave the state as it was (no
  field is read, nothing is written, no error), and the loops of \<open>Populate\<close> go on as
  if the object were not listed.
\<close>

theorem named_value_skipped:
  assumes "Name (objs s ! ob) \<noteq> []" "reflectType (objs s ! ob) = Some t" "\<not> isStructPtr t"
  shows "populateExplicit E n s ob = Some (Nil, s)
       \<and> populateUnnamedInterface E s ob = (Nil, s)
       \<and> explicitAll E n s (ob # obs) = explicitAll E n s obs
       \<and> interfaceAll E s (ob # obs) = interfaceAll E s obs"
  using assms by (simp add: populateExplicit.simps populateUnnamedInterface_def)

theorem named_value_skipped_witness:
  "populateExplicit ECap 0 sNamedInt 0 = Some (Nil, sNamedInt)
   \<and> populateUnnamedInterface ECap sNamedInt 0 = (Nil, sNamedInt)
   \<and> Populate ECap 0 [''port''] [''port''] sNamedInt = Some (Nil, sNamedInt)"
proof -
  have h: "Name (objs sNamedInt ! 0) \<noteq> []" "reflectType (objs sNamedInt ! 0) = Some (Basic ''int'')"
      "\<not> isStructPtr (Basic ''int'')"
    by (simp_all add: sNamedInt_eval)
  note r = named_value_skipped [OF h, of ECap _ "[]"]
  have n: "namedObjects sNamedInt [''port''] = [0]" "unnamed sNamedInt = []"
    by (simp_all add: namedObjects_def sNamedInt_eval)
  have ef: "explicitFrom ECap 0 0 sNamedInt 0 = Some (Nil, sNamedInt)"
    by (simp add: explicitFrom.simps n)
  from r [of 0] show ?thesis
    by (simp add: Populate_def n ef)
qed

text \<open>
  C9 as the claim states it fails on the named object whose value is the nil interface,
  which is not a pointer to a struct either: \<open>Provide\<close> accepts it,
  \<open>reflect.TypeOf(nil)\<close> is the nil type, and the guard
  \<open>o.Name != "" && !isStructPtr(o.reflectType)\<close> of the first pass calls \<open>Kind\<close> on
  it, which panics. \<open>Populate\<close> does not skip this object, whatever the type
  environment and the fuel.
\<close>

theorem nil_named_panics:
  "Name (objs sNilNamed ! 0) = ''cfg'' \<and> Value (objs sNilNamed ! 0) = None
   \<and> fst (Provide sNilNamed [0]) = Nil
   \<and> (\<forall>E n. Populate E n [''cfg''] [''cfg''] (snd (Provide sNilNamed [0]))
       = Some (Panic ''Kind of nil type'', snd (Provide sNilNamed [0])))"
  by (simp add: Provide.simps sNilNamed_def emptyGraph_def newObject_def Populate_def namedObjects_def
       populateExplicit.simps)

section \<open>Termination\<close>

text \<open>
  A \<open>Node\<close> whose \<open>Next\<close> is nil makes \<open>populateExplicit\<close> allocate another such
  \<open>Node\<close>, register it as a private object and call itself on it: no amount of fuel
  lets the call return.
\<close>

lemma zeroVal_Node: "zeroVal ENode (Suc d) (Struct ''Node'') = Some (VStruct [VPtr None])"
  by (simp add: ENode_def fieldNext_def exportedField_def)

lemma Node_never_returns: "freshNode s ob \<Longrightarrow> populateExplicit ENode n s ob = None"
proof (induction n arbitrary: s ob)
  case 0
  then obtain c where c: "Name (objs s ! ob) = []"
      "reflectType (objs s ! ob) = Some (Ptr (Struct ''Node''))"
      "reflectValue (objs s ! ob) = Some (Ptr (Struct ''Node''), VPtr (Some (c, [])))"
      "c < length (cells s)" "cells s ! c = VStruct [VPtr None]"
    by (auto simp: freshNode_def)
  have tg: "parseTag (unquote ENode) (fieldTag fieldNext) = (Some injectPrivate, None)"
    by (simp add: ENode_def fieldNext_def exportedField_def parseTag_tagPrivate)
  have sf: "structFields ENode ''Node'' = [fieldNext]"
    by (simp add: ENode_def)
  have ld: "load s (fieldAddr (c, []) 0) = Some (VPtr None)"
    using c by (simp add: load_def fieldAddr_def)
  have ft: "fieldType fieldNext = Ptr (Struct ''Node'')" "canSet fieldNext"
    by (simp_all add: fieldNext_def exportedField_def)
  show ?case
    apply (subst populateExplicit.simps)
    using c tg ld
    apply (simp add: sf structLoop.simps ft injectPrivate_def)
    done
next
  case (Suc n)
  then obtain c where c: "Name (objs s ! ob) = []"
      "reflectType (objs s ! ob) = Some (Ptr (Struct ''Node''))"
      "reflectValue (objs s ! ob) = Some (Ptr (Struct ''Node''), VPtr (Some (c, [])))"
      "c < length (cells s)" "cells s ! c = VStruct [VPtr None]"
    by (auto simp: freshNode_def)
  have tg: "parseTag (unquote ENode) (fieldTag fieldNext) = (Some injectPrivate, None)"
    by (simp add: ENode_def fieldNext_def exportedField_def parseTag_tagPrivate)
  have sf: "structFields ENode ''Node'' = [fieldNext]"
    by (simp add: ENode_def)
  have ld: "load s (fieldAddr (c, []) 0) = Some (VPtr None)"
    using c by (simp add: load_def fieldAddr_def)
  define s1 where "s1 = snd (allocObject (s\<lparr>cells := cells s @ [VStruct [VPtr None]]\<rparr>)
       ((newObject (Some (Ptr (Struct ''Node''), VPtr (Some (length (cells s), [])))))
          \<lparr>private' := True, created := True\<rparr>))"
  define s2 where "s2 = snd (Provide s1 [length (objs s)])"
  have p: "Provide s1 [length (objs s)] = (Nil, s2)"
    unfolding s2_def s1_def by (simp add: Provide.simps allocObject_def newObject_def nth_append)
  have fr: "freshNode s2 (length (objs s))"
    unfolding s2_def s1_def freshNode_def
    by (simp add: Provide.simps allocObject_def newObject_def nth_append)
  have rec: "populateExplicit ENode n s2 (length (objs s)) = None"
    using Suc.IH [OF fr] .
  have al: "allocObject (s\<lparr>cells := cells s @ [VStruct [VPtr None]]\<rparr>)
       ((newObject (Some (Ptr (Struct ''Node''), VPtr (Some (length (cells s), [])))))
          \<lparr>private' := True, created := True\<rparr>) = (length (objs s), s1)"
    unfolding s1_def by (simp add: allocObject_def)
  have ft: "fieldType fieldNext = Ptr (Struct ''Node'')" "canSet fieldNext"
    by (simp_all add: fieldNext_def exportedField_def)
  show ?case
    apply (subst populateExplicit.simps)
    using c tg ld
    apply (simp add: sf structLoop.simps ft injectPrivate_def zeroVal_Node al p rec)
    done
qed

lemma sNode_fresh: "freshNode sNode 0 \<and> unnamed sNode = [0] \<and> \<not> Complete (objs sNode ! 0) \<and> named sNode = []"
  by (simp add: Provide.simps sNode_def freshNode_def emptyGraph_def newObject_def typeTaken_def)

text \<open>
  C2 fails on this input: \<open>Populate\<close> does not terminate on the graph that holds one
  \<open>&Node{}\<close>. Whatever the fuel \<open>n\<close>, the fuel runs out.
\<close>

theorem private_chain_never_returns: "Populate ENode n [] [] sNode = None"
proof -
  have "populateExplicit ENode n sNode 0 = None"
    using sNode_fresh by (simp add: Node_never_returns)
  then have "explicitFrom ENode n n sNode 0 = None"
    using sNode_fresh by (cases n) (simp_all add: explicitFrom.simps)
  then show ?thesis
    by (simp add: Populate_def namedObjects_def)
qed

text \<open>
  A cycle of tracked values, built by hand, is no obstacle: every field holds a value that
  an unnamed object holds already, so nothing is registered and nothing is written.
\<close>

lemma manual_cycle_populates:
  "map_option fst (Populate ECycle 2 [] [] sCycle) = Some Nil
   \<and> map_option (cells \<circ> snd) (Populate ECycle 2 [] [] sCycle) = Some (cells sCycle)
   \<and> map_option (unnamed \<circ> snd) (Populate ECycle 2 [] [] sCycle) = Some [0, 1]"
  by code_simp

text \<open>
  Meeting a field that holds a tracked value again: the loop goes on with the next field,
  in the same state.
\<close>

lemma tracked_field_is_passed_over:
  assumes "load s (fieldAddr a i) = Some field" "\<not> isNilOrZero field"
    and "parseTag (unquote E) (fieldTag fd) = (Some tg, None)"
    and "canSet fd" "\<not> Inline tg"
    and "tracked s (fieldType fd, field)"
  shows "structLoop E n s ob a T i (fd # fds) = structLoop E n s ob a T (i + 1) fds"
  apply (subst structLoop.simps(2))
  using assms
  apply simp
  done

end
